theory Spec2Isabelle
  imports Main "HOL-Library.Word"
begin

section \<open>Voice assistant server: strings and the sentence segmenter\<close>

text \<open>
  The server of \<^verbatim>\<open>src/server/main.py\<close> keeps a conversation history, buffers inbound
  audio, and on \<^verbatim>\<open>end_audio\<close> runs transcription, the language model stream and speech
  synthesis. A Python \<^verbatim>\<open>str\<close> is modelled as a \<^typ>\<open>string\<close>: a list of code points, here
  those below 256.
\<close>

subsection \<open>Python string helpers\<close>

text \<open>
  \<^verbatim>\<open>str.strip()\<close> without argument removes leading and trailing characters for which
  \<^verbatim>\<open>str.isspace()\<close> holds. Below 256 these are the code points 9 to 13, 28 to 32, 133
  and 160.
\<close>

definition isspace :: "char \<Rightarrow> bool" where
  "isspace c = (c \<in> set [CHR 0x09, CHR 0x0A, CHR 0x0B, CHR 0x0C, CHR 0x0D,
                          CHR 0x1C, CHR 0x1D, CHR 0x1E, CHR 0x1F, CHR 0x20,
                          CHR 0x85, CHR 0xA0])"

definition lstrip :: "string \<Rightarrow> string" where
  "lstrip s = dropWhile isspace s"

definition rstrip :: "string \<Rightarrow> string" where
  "rstrip s = rev (dropWhile isspace (rev s))"

definition strip :: "string \<Rightarrow> string" where
  "strip s = rstrip (lstrip s)"

text \<open>
  \<^verbatim>\<open>s.rfind(c)\<close> for a one-character \<^verbatim>\<open>c\<close>: the highest index at which \<^verbatim>\<open>c\<close> occurs,
  or \<^verbatim>\<open>-1\<close> when it does not occur.
\<close>

fun rfind :: "string \<Rightarrow> char \<Rightarrow> int" where
  "rfind [] c = -1"
| "rfind (x # xs) c =
     (let r = rfind xs c
      in if r \<ge> 0 then r + 1 else if x = c then 0 else -1)"

text \<open>\<^verbatim>\<open>" ".join(parts)\<close>\<close>

fun join_space :: "string list \<Rightarrow> string" where
  "join_space [] = []"
| "join_space [x] = x"
| "join_space (x # y # ys) = x @ '' '' @ join_space (y # ys)"

subsection \<open>Sentence segmenter\<close>

text \<open>
  Lines 233 and 247 to 263 of the handler:
  \<^verbatim>\<open>
  sentence_enders = ".!?"
  for ender in sentence_enders:
      if ender in sentence_buffer:
          idx = sentence_buffer.rfind(ender)
          sentence = sentence_buffer[:idx + 1].strip()
          sentence_buffer = sentence_buffer[idx + 1:]
          if sentence:
              ... synthesize and stream this sentence ...
          break
  \<close>
  \<open>scan_enders\<close> is the \<^verbatim>\<open>for\<close> loop without the synthesis: it returns the sentence to
  speak, if any, and the new sentence buffer. The loop stops at the first ender that
  occurs in the buffer (\<^verbatim>\<open>break\<close>).
\<close>

definition sentence_enders :: string where
  "sentence_enders = ''.!?''"

fun scan_enders :: "string \<Rightarrow> string \<Rightarrow> string option \<times> string" where
  "scan_enders [] sentence_buffer = (None, sentence_buffer)"
| "scan_enders (ender # rest) sentence_buffer =
     (if ender \<in> set sentence_buffer then
        (let idx = rfind sentence_buffer ender;
             sentence = strip (take (nat (idx + 1)) sentence_buffer);
             sentence_buffer' = drop (nat (idx + 1)) sentence_buffer
         in (if sentence \<noteq> [] then Some sentence else None, sentence_buffer'))
      else scan_enders rest sentence_buffer)"

text \<open>
  One delta: \<^verbatim>\<open>sentence_buffer += chunk\<close> followed by the scan. The segmenter on a
  sequence of deltas returns, for each delta, the sentences emitted while processing it,
  and the sentence buffer left at the end of the stream.
\<close>

definition feed :: "string \<Rightarrow> string \<Rightarrow> string option \<times> string" where
  "feed sentence_buffer chunk = scan_enders sentence_enders (sentence_buffer @ chunk)"

fun feed_all :: "string \<Rightarrow> string list \<Rightarrow> string list list \<times> string" where
  "feed_all sentence_buffer [] = ([], sentence_buffer)"
| "feed_all sentence_buffer (chunk # chunks) =
     (case feed sentence_buffer chunk of
        (emitted, sentence_buffer') \<Rightarrow>
          (case feed_all sentence_buffer' chunks of
             (more, final) \<Rightarrow>
               ((case emitted of None \<Rightarrow> [] | Some sentence \<Rightarrow> [sentence]) # more, final)))"

section \<open>The data of the server\<close>

subsection \<open>JSON values, exceptions, messages\<close>

text \<open>
  The value \<^verbatim>\<open>json.loads\<close> returns. An object is the list of items of the resulting
  \<^verbatim>\<open>dict\<close>, looked up with \<^const>\<open>map_of\<close>. Numbers are integers here: the handler only
  stores them and tests their truth value.
\<close>

datatype json =
    JNull
  | JBool bool
  | JNum int
  | JStr string
  | JArr "json list"
  | JObj "(string \<times> json) list"

text \<open>The exceptions that the handler's own statements and its collaborators raise.\<close>

datatype error =
    JSONDecodeError
  | AttributeError
  | KeyError
  | TypeError
  | ValueError
  | ServiceError string

type_synonym byte = "8 word"

datatype role = System | User | Assistant

datatype turn = Turn (turn_role: role) (turn_content: string)

text \<open>The objects passed to \<^verbatim>\<open>websocket.send_json\<close>, one constructor for each shape.\<close>

datatype out_msg =
    ErrorMsg string
  | TranscriptMsg string
  | ResponseText string bool
  | AudioMsg string nat
  | Done
  | HistoryCleared

subsection \<open>Collaborators and configuration\<close>

text \<open>
  The libraries and remote services are parameters of the model. A generator that yields
  items and may then raise is a list of items with an optional exception.
  \<^item> \<open>system_prompt\<close>: \<^verbatim>\<open>CONFIG["ollama"]["system_prompt"]\<close>;
  \<^item> \<open>json_loads\<close>: \<^verbatim>\<open>json.loads\<close>, \<open>None\<close> when it raises \<^verbatim>\<open>JSONDecodeError\<close>;
  \<^item> \<open>b64decode\<close>, \<open>b64encode\<close>: \<^verbatim>\<open>base64.b64decode\<close> on a \<^verbatim>\<open>str\<close> (\<open>None\<close> when it
    raises) and \<^verbatim>\<open>base64.b64encode(...).decode()\<close>;
  \<^item> \<open>get_whisper_model\<close>: loading the Whisper model, \<open>Some err\<close> when it raises;
  \<^item> \<open>whisper\<close>: \<^verbatim>\<open>model.transcribe\<close> on the samples, giving the texts of the segments;
  \<^item> \<open>ollama\<close>: the chat request with the given messages, giving the lines of
    \<^verbatim>\<open>response.aiter_lines()\<close>;
  \<^item> \<open>piper\<close>: loading the voice and \<^verbatim>\<open>voice.synthesize_stream_raw(text)\<close>.
\<close>

record env =
  system_prompt :: string
  json_loads :: "string \<Rightarrow> json option"
  b64decode :: "string \<Rightarrow> byte list option"
  b64encode :: "byte list \<Rightarrow> string"
  get_whisper_model :: "error option"
  whisper :: "16 word list \<Rightarrow> error + string list"
  ollama :: "turn list \<Rightarrow> string list \<times> error option"
  piper :: "string \<Rightarrow> byte list list \<times> error option"

definition tts_sample_rate :: nat where
  "tts_sample_rate = 22050"

subsection \<open>Session state\<close>

text \<open>
  \<open>conversation_history\<close> is the module-level list; \<open>audio_buffer\<close> and \<open>sample_rate\<close>
  are the local variables of \<^verbatim>\<open>websocket_endpoint\<close>.
\<close>

record session =
  conversation_history :: "turn list"
  audio_buffer :: "byte list"
  sample_rate :: json

text \<open>
  What handling one frame leaves behind: the state, the messages sent, and the exception
  that left the handler, if any. State changes and messages that precede an exception
  stay.
\<close>

record outcome =
  state :: session
  sent :: "out_msg list"
  raised :: "error option"

section \<open>The operations\<close>

subsection \<open>Conversation and transcription\<close>

definition init_conversation :: "env \<Rightarrow> turn list" where
  "init_conversation e = [Turn System (system_prompt e)]"

text \<open>
  \<^verbatim>\<open>np.frombuffer(audio_data, dtype=np.int16)\<close>: little-endian 16-bit samples; a buffer of
  odd length raises \<^verbatim>\<open>ValueError\<close>.
\<close>

fun frombuffer_int16 :: "byte list \<Rightarrow> error + 16 word list" where
  "frombuffer_int16 [] = Inr []"
| "frombuffer_int16 [b] = Inl ValueError"
| "frombuffer_int16 (lo # hi # bs) =
     (case frombuffer_int16 bs of
        Inl err \<Rightarrow> Inl err
      | Inr samples \<Rightarrow> Inr (word_cat hi lo # samples))"

text \<open>
  \<^verbatim>\<open>transcribe_audio\<close>: the model is loaded first (line 96), then the buffer is
  converted, then transcribed. The division of the samples by 32768.0 is part of what
  \<open>whisper\<close> stands for; the \<^verbatim>\<open>sample_rate\<close> argument is not used by the source.
\<close>

definition transcribe_audio :: "env \<Rightarrow> byte list \<Rightarrow> json \<Rightarrow> error + string" where
  "transcribe_audio e audio_data rate =
     (case get_whisper_model e of
        Some err \<Rightarrow> Inl err
      | None \<Rightarrow>
          (case frombuffer_int16 audio_data of
             Inl err \<Rightarrow> Inl err
           | Inr audio_np \<Rightarrow>
               (case whisper e audio_np of
                  Inl err \<Rightarrow> Inl err
                | Inr segments \<Rightarrow> Inr (strip (join_space segments)))))"

subsection \<open>Speech synthesis of one sentence\<close>

text \<open>
  \<^verbatim>\<open>async for audio_chunk in synthesize_speech_streaming(text): await websocket.send_json(...)\<close>:
  the audio messages sent and the exception that ended the loop, if any.
\<close>

definition speak :: "env \<Rightarrow> string \<Rightarrow> out_msg list \<times> error option" where
  "speak e text =
     (case piper e text of
        (chunks, failure) \<Rightarrow>
          (map (\<lambda>audio_chunk. AudioMsg (b64encode e audio_chunk) tts_sample_rate) chunks,
           failure))"

subsection \<open>The language model stream\<close>

text \<open>Truth value of a JSON value, as Python's \<^verbatim>\<open>if\<close> sees it.\<close>

fun truthy :: "json \<Rightarrow> bool" where
  "truthy JNull = False"
| "truthy (JBool b) = b"
| "truthy (JNum n) = (n \<noteq> 0)"
| "truthy (JStr s) = (s \<noteq> [])"
| "truthy (JArr xs) = (xs \<noteq> [])"
| "truthy (JObj kvs) = (kvs \<noteq> [])"

text \<open>
  \<^verbatim>\<open>data.get(key, default)\<close>: only a \<^verbatim>\<open>dict\<close> has \<^verbatim>\<open>get\<close>; any other value raises
  \<^verbatim>\<open>AttributeError\<close>.
\<close>

fun dict_get :: "json \<Rightarrow> string \<Rightarrow> json \<Rightarrow> error + json" where
  "dict_get (JObj kvs) key dflt =
     Inr (case map_of kvs key of None \<Rightarrow> dflt | Some v \<Rightarrow> v)"
| "dict_get other key dflt = Inl AttributeError"

text \<open>
  Lines 133 to 136 of \<^verbatim>\<open>chat_stream\<close> for one parsed line:
  \<^verbatim>\<open>if content := data.get("message", {}).get("content"): full_response += content\<close>.
  The result is the content to yield, if any. A truthy content that is not a string makes
  \<^verbatim>\<open>full_response += content\<close> raise \<^verbatim>\<open>TypeError\<close>.
\<close>

definition line_content :: "json \<Rightarrow> error + string option" where
  "line_content data =
     (case dict_get data ''message'' (JObj []) of
        Inl err \<Rightarrow> Inl err
      | Inr message \<Rightarrow>
          (case dict_get message ''content'' JNull of
             Inl err \<Rightarrow> Inl err
           | Inr c \<Rightarrow>
               (if truthy c then
                  (case c of JStr s \<Rightarrow> Inr (Some s) | _ \<Rightarrow> Inl TypeError)
                else Inr None)))"

text \<open>
  The body of the handler's \<^verbatim>\<open>async for chunk in chat_stream(transcript)\<close> for one chunk
  (lines 236 to 263): the messages sent, the new sentence buffer and the exception raised
  by the synthesis, if any. The handler's own \<^verbatim>\<open>full_response\<close> is only printed and is
  left out.
\<close>

definition on_chunk :: "env \<Rightarrow> string \<Rightarrow> string \<Rightarrow> out_msg list \<times> string \<times> error option" where
  "on_chunk e sentence_buffer chunk =
     (case feed sentence_buffer chunk of
        (None, sentence_buffer') \<Rightarrow> ([ResponseText chunk False], sentence_buffer', None)
      | (Some sentence, sentence_buffer') \<Rightarrow>
          (case speak e sentence of
             (audio, failure) \<Rightarrow> (ResponseText chunk False # audio, sentence_buffer', failure)))"

text \<open>
  The state of the two nested loops while the stream is read: \<open>full_response\<close> of
  \<^verbatim>\<open>chat_stream\<close>, the handler's \<open>sentence_buffer\<close>, and the messages sent so far.
\<close>

record stream_state =
  full_response :: string
  sentence_buffer :: string
  emitted :: "out_msg list"

text \<open>
  \<^verbatim>\<open>async for line in response.aiter_lines()\<close> of \<^verbatim>\<open>chat_stream\<close>, with the handler's
  loop body run at each \<^verbatim>\<open>yield\<close>. An empty line is skipped, a line that is not JSON is
  skipped (\<^verbatim>\<open>except json.JSONDecodeError: pass\<close>); any other exception leaves the loop.
\<close>

fun drain :: "env \<Rightarrow> string list \<Rightarrow> stream_state \<Rightarrow> stream_state \<times> error option" where
  "drain e [] st = (st, None)"
| "drain e (line # lines) st =
     (if line = [] then drain e lines st
      else
        (case json_loads e line of
           None \<Rightarrow> drain e lines st
         | Some data \<Rightarrow>
             (case line_content data of
                Inl err \<Rightarrow> (st, Some err)
              | Inr None \<Rightarrow> drain e lines st
              | Inr (Some content) \<Rightarrow>
                  (case on_chunk e (sentence_buffer st) content of
                     (msgs, sentence_buffer', failure) \<Rightarrow>
                       (let st' = \<lparr>full_response = full_response st @ content,
                                   sentence_buffer = sentence_buffer',
                                   emitted = emitted st @ msgs\<rparr>
                        in (case failure of
                              Some err \<Rightarrow> (st', Some err)
                            | None \<Rightarrow> drain e lines st'))))))"


text \<open>
  \<^verbatim>\<open>chat_stream(user_message)\<close> as the handler consumes it. The user turn is appended
  first; the request carries the history with that turn; the assistant turn is appended
  only when the lines are exhausted without an exception. The result is the history, the
  state of the loops and the exception that ended the stream early, if any.
\<close>

definition chat_stream :: "env \<Rightarrow> turn list \<Rightarrow> string \<Rightarrow> turn list \<times> stream_state \<times> error option" where
  "chat_stream e history user_message =
     (let history' = history @ [Turn User user_message]
      in (case ollama e history' of
            (lines, failure) \<Rightarrow>
              (case drain e lines \<lparr>full_response = [], sentence_buffer = [], emitted = []\<rparr> of
                 (st, Some err) \<Rightarrow> (history', st, Some err)
               | (st, None) \<Rightarrow>
                   (case failure of
                      Some err \<Rightarrow> (history', st, Some err)
                    | None \<Rightarrow>
                        (history' @ [Turn Assistant (full_response st)], st, None)))))"

subsection \<open>The handler\<close>

text \<open>The \<^verbatim>\<open>end_audio\<close> branch, lines 212 to 280.\<close>

definition end_audio :: "env \<Rightarrow> session \<Rightarrow> outcome" where
  "end_audio e s =
     (if audio_buffer s = [] then
        \<lparr>state = s, sent = [ErrorMsg ''No audio received''], raised = None\<rparr>
      else
        (case transcribe_audio e (audio_buffer s) (sample_rate s) of
           Inl err \<Rightarrow> \<lparr>state = s, sent = [], raised = Some err\<rparr>
         | Inr transcript \<Rightarrow>
             (if transcript = [] then
                \<lparr>state = s\<lparr>audio_buffer := []\<rparr>,
                 sent = [TranscriptMsg transcript, ErrorMsg ''Could not transcribe audio''],
                 raised = None\<rparr>
              else
                (case chat_stream e (conversation_history s) transcript of
                   (history', st, Some err) \<Rightarrow>
                     \<lparr>state = s\<lparr>conversation_history := history'\<rparr>,
                      sent = TranscriptMsg transcript # emitted st,
                      raised = Some err\<rparr>
                 | (history', st, None) \<Rightarrow>
                     (case (if strip (sentence_buffer st) \<noteq> []
                            then speak e (strip (sentence_buffer st)) else ([], None)) of
                        (audio, Some err) \<Rightarrow>
                          \<lparr>state = s\<lparr>conversation_history := history'\<rparr>,
                           sent = TranscriptMsg transcript # emitted st @ audio,
                           raised = Some err\<rparr>
                      | (audio, None) \<Rightarrow>
                          \<lparr>state = s\<lparr>conversation_history := history', audio_buffer := []\<rparr>,
                           sent = TranscriptMsg transcript # emitted st @ audio
                                    @ [ResponseText [] True, Done],
                           raised = None\<rparr>)))))"

text \<open>The \<^verbatim>\<open>audio\<close> branch, lines 205 to 210. \<^verbatim>\<open>data["data"]\<close> raises \<^verbatim>\<open>KeyError\<close> when
  the key is missing; \<^verbatim>\<open>b64decode\<close> raises \<^verbatim>\<open>TypeError\<close> on a value that is not a string
  and a \<^verbatim>\<open>ValueError\<close> on a string it cannot decode.\<close>

definition audio_msg :: "env \<Rightarrow> session \<Rightarrow> (string \<times> json) list \<Rightarrow> outcome" where
  "audio_msg e s kvs =
     (case map_of kvs ''data'' of
        None \<Rightarrow> \<lparr>state = s, sent = [], raised = Some KeyError\<rparr>
      | Some (JStr text) \<Rightarrow>
          (case b64decode e text of
             None \<Rightarrow> \<lparr>state = s, sent = [], raised = Some ValueError\<rparr>
           | Some audio_chunk \<Rightarrow>
               \<lparr>state = s\<lparr>audio_buffer := audio_buffer s @ audio_chunk,
                           sample_rate := (case map_of kvs ''sample_rate'' of
                                             None \<Rightarrow> JNum 16000 | Some v \<Rightarrow> v)\<rparr>,
                sent = [], raised = None\<rparr>)
      | Some other \<Rightarrow> \<lparr>state = s, sent = [], raised = Some TypeError\<rparr>)"

text \<open>
  One iteration of \<^verbatim>\<open>while True\<close> after \<^verbatim>\<open>receive_text\<close> returned \<open>message\<close>, lines 202
  to 284. \<^verbatim>\<open>json.loads\<close> and \<^verbatim>\<open>data.get\<close> are not inside any \<^verbatim>\<open>try\<close> that catches their
  exceptions: the only handler is \<^verbatim>\<open>except WebSocketDisconnect\<close>.
\<close>

definition handle_frame :: "env \<Rightarrow> session \<Rightarrow> string \<Rightarrow> outcome" where
  "handle_frame e s message =
     (case json_loads e message of
        None \<Rightarrow> \<lparr>state = s, sent = [], raised = Some JSONDecodeError\<rparr>
      | Some (JObj kvs) \<Rightarrow>
          (let msg_type = map_of kvs ''type''
           in if msg_type = Some (JStr ''audio'') then audio_msg e s kvs
              else if msg_type = Some (JStr ''end_audio'') then end_audio e s
              else if msg_type = Some (JStr ''clear_history'') then
                \<lparr>state = s\<lparr>conversation_history := init_conversation e\<rparr>,
                 sent = [HistoryCleared], raised = None\<rparr>
              else \<lparr>state = s, sent = [], raised = None\<rparr>)
      | Some other \<Rightarrow> \<lparr>state = s, sent = [], raised = Some AttributeError\<rparr>)"

text \<open>
  The \<^verbatim>\<open>while True\<close> loop on the frames the client sends before it disconnects. The
  trace records every \<^verbatim>\<open>receive_text\<close> that returned and every \<^verbatim>\<open>send_json\<close>, in program
  order. When the frames are exhausted \<^verbatim>\<open>receive_text\<close> raises \<^verbatim>\<open>WebSocketDisconnect\<close>,
  which the handler catches (\<open>ended = None\<close>); any other exception leaves the handler
  (\<open>ended = Some err\<close>) and the remaining frames are never read. Sending is taken to
  succeed while the client is connected.
\<close>

datatype event = Recv string | Send out_msg

record run =
  final :: session
  trace :: "event list"
  ended :: "error option"

fun websocket_loop :: "env \<Rightarrow> session \<Rightarrow> string list \<Rightarrow> run" where
  "websocket_loop e s [] = \<lparr>final = s, trace = [], ended = None\<rparr>"
| "websocket_loop e s (message # rest) =
     (let r = handle_frame e s message
      in (case raised r of
            Some err \<Rightarrow>
              \<lparr>final = state r, trace = Recv message # map Send (sent r), ended = Some err\<rparr>
          | None \<Rightarrow>
              (let r' = websocket_loop e (state r) rest
               in r'\<lparr>trace := Recv message # map Send (sent r) @ trace r'\<rparr>)))"

text \<open>
  \<^verbatim>\<open>websocket_endpoint\<close> from \<^verbatim>\<open>accept\<close> on: \<^verbatim>\<open>init_conversation()\<close> assigns the
  module-level history, whatever it held before, then the loop runs.
\<close>

definition accept :: "env \<Rightarrow> session" where
  "accept e = \<lparr>conversation_history = init_conversation e,
               audio_buffer = [], sample_rate = JNum 16000\<rparr>"

definition websocket_endpoint :: "env \<Rightarrow> string list \<Rightarrow> run" where
  "websocket_endpoint e frames = websocket_loop e (accept e) frames"

subsection \<open>Several connections\<close>

text \<open>
  \<^verbatim>\<open>conversation_history\<close> is one module-level variable (line 57) and every handler
  declares it \<^verbatim>\<open>global\<close>; \<^verbatim>\<open>audio_buffer\<close> and \<^verbatim>\<open>sample_rate\<close> are local to each call of
  \<^verbatim>\<open>websocket_endpoint\<close>. The server state is the shared history, the locals of each open
  connection, and the messages sent, tagged with their connection. A schedule lists
  connection events in the order the event loop runs them, each frame handled to its
  end before the next event; the event loop may also switch between handlers at any
  \<^verbatim>\<open>await\<close>, so these schedules are some of the possible ones.
\<close>

datatype net_event = Connect nat | Frame nat string | Disconnect nat

record server =
  shared_history :: "turn list"
  locals :: "nat \<Rightarrow> (byte list \<times> json) option"
  wire :: "(nat \<times> out_msg) list"

definition server_step :: "env \<Rightarrow> server \<Rightarrow> net_event \<Rightarrow> server" where
  "server_step e sv ev =
     (case ev of
        Connect c \<Rightarrow>
          sv\<lparr>shared_history := conversation_history (accept e),
             locals := (locals sv)(c \<mapsto> (audio_buffer (accept e), sample_rate (accept e)))\<rparr>
      | Disconnect c \<Rightarrow> sv\<lparr>locals := (locals sv)(c := None)\<rparr>
      | Frame c message \<Rightarrow>
          (case locals sv c of
             None \<Rightarrow> sv
           | Some (buf, rate) \<Rightarrow>
               (let r = handle_frame e
                          \<lparr>conversation_history = shared_history sv,
                           audio_buffer = buf, sample_rate = rate\<rparr> message
                in \<lparr>shared_history = conversation_history (state r),
                    locals = (locals sv)
                      (c := (case raised r of
                               None \<Rightarrow> Some (audio_buffer (state r), sample_rate (state r))
                             | Some err \<Rightarrow> None)),
                    wire = wire sv @ map (Pair c) (sent r)\<rparr>)))"

definition server_start :: server where
  "server_start = \<lparr>shared_history = [], locals = (\<lambda>c. None), wire = []\<rparr>"

definition server_run :: "env \<Rightarrow> net_event list \<Rightarrow> server" where
  "server_run e evs = foldl (server_step e) server_start evs"

text \<open>What one connection observes: the messages sent to it.\<close>

definition sent_to :: "nat \<Rightarrow> server \<Rightarrow> out_msg list" where
  "sent_to c sv = map snd (filter (\<lambda>p. fst p = c) (wire sv))"

text \<open>A schedule with the frames of connection \<open>c\<close> taken out.\<close>

fun frame_of :: "nat \<Rightarrow> net_event \<Rightarrow> bool" where
  "frame_of c (Frame c' message) = (c' = c)"
| "frame_of c (Connect c') = False"
| "frame_of c (Disconnect c') = False"

definition without_frames_of :: "nat \<Rightarrow> net_event list \<Rightarrow> net_event list" where
  "without_frames_of c evs = filter (\<lambda>ev. \<not> frame_of c ev) evs"

subsection \<open>Reading a run\<close>

text \<open>
  The kind of a frame as the dispatch of \<open>handle_frame\<close> sees it, the number of turns
  that reached \<^verbatim>\<open>send_json({"type": "done"})\<close>, the frames read, and the shape of a
  history after its first turn: user and assistant turns in pairs.
\<close>

definition frame_type :: "env \<Rightarrow> string \<Rightarrow> json option" where
  "frame_type e message =
     (case json_loads e message of
        Some (JObj kvs) \<Rightarrow> map_of kvs ''type''
      | _ \<Rightarrow> None)"

definition successful_turns :: "event list \<Rightarrow> nat" where
  "successful_turns tr = length (filter (\<lambda>ev. ev = Send Done) tr)"

fun received :: "event list \<Rightarrow> string list" where
  "received [] = []"
| "received (Recv message # tr) = message # received tr"
| "received (Send m # tr) = received tr"

fun user_assistant_pairs :: "turn list \<Rightarrow> bool" where
  "user_assistant_pairs [] = True"
| "user_assistant_pairs [t] = False"
| "user_assistant_pairs (u # a # rest) =
     (turn_role u = User \<and> turn_role a = Assistant \<and> user_assistant_pairs rest)"

text \<open>
  The messages sent while the language model stream is read: text deltas and audio.
\<close>

fun stream_msg :: "out_msg \<Rightarrow> bool" where
  "stream_msg (ResponseText text False) = True"
| "stream_msg (AudioMsg d rate) = True"
| "stream_msg other = False"

fun is_error :: "out_msg \<Rightarrow> bool" where
  "is_error (ErrorMsg text) = True"
| "is_error other = False"

section \<open>The segmenter as the specification words it\<close>

text \<open>
  The specification's segmenter cuts at the last sentence-ending character of any of the
  three kinds in the buffer. \<open>rfind_any\<close> is that index (\<open>-1\<close> when there is none) and
  \<open>spec_feed\<close> the cut made there. After such a cut the remainder holds no ending
  character, so scanning it again emits nothing more.
\<close>

fun rfind_any :: "string \<Rightarrow> string \<Rightarrow> int" where
  "rfind_any [] cs = -1"
| "rfind_any (x # xs) cs =
     (let r = rfind_any xs cs
      in if r \<ge> 0 then r + 1 else if x \<in> set cs then 0 else -1)"

definition spec_feed :: "string \<Rightarrow> string \<Rightarrow> string option \<times> string" where
  "spec_feed buf chunk =
     (let b = buf @ chunk; idx = rfind_any b sentence_enders
      in if idx < 0 then (None, b)
         else (let sentence = strip (take (nat (idx + 1)) b)
               in (if sentence \<noteq> [] then Some sentence else None, drop (nat (idx + 1)) b)))"


section \<open>A concrete environment\<close>

text \<open>
  Frames and lines as they appear on the wire, and collaborators that answer them:
  \<open>json_loads\<close> is \<^verbatim>\<open>json.loads\<close> on the texts used below (\<open>truncated_frame\<close> is not
  JSON), the base64 text \<^verbatim>\<open>AAA=\<close> stands for two zero bytes, the transcriber hears
  \<^verbatim>\<open>Hello\<close>, the language model answers with one line, a different one once the request
  carries an earlier exchange, and the synthesizer yields one chunk per sentence.
\<close>

definition audio_frame :: string where
  \<open>audio_frame = ''{"type": "audio", "data": "AAA="}''\<close>

definition end_audio_frame :: string where
  \<open>end_audio_frame = ''{"type": "end_audio"}''\<close>

definition clear_history_frame :: string where
  \<open>clear_history_frame = ''{"type": "clear_history"}''\<close>

definition truncated_frame :: string where
  \<open>truncated_frame = ''{"type": "end_au''\<close>

definition first_reply :: string where
  \<open>first_reply = ''{"message": {"content": "Hi there."}}''\<close>

definition later_reply :: string where
  \<open>later_reply = ''{"message": {"content": "Hello again."}}''\<close>

definition open_reply :: string where
  \<open>open_reply = ''{"message": {"content": "Hi there"}}''\<close>

definition demo_env :: env where
  "demo_env =
     \<lparr>system_prompt = ''You are a helpful voice assistant.'',
      json_loads = map_of
        [(audio_frame, JObj [(''type'', JStr ''audio''), (''data'', JStr ''AAA='')]),
         (end_audio_frame, JObj [(''type'', JStr ''end_audio'')]),
         (clear_history_frame, JObj [(''type'', JStr ''clear_history'')]),
         (first_reply, JObj [(''message'', JObj [(''content'', JStr ''Hi there.'')])]),
         (later_reply, JObj [(''message'', JObj [(''content'', JStr ''Hello again.'')])]),
         (open_reply, JObj [(''message'', JObj [(''content'', JStr ''Hi there'')])])],
      b64decode = map_of [(''AAA='', [0, 0])],
      b64encode = (\<lambda>bs. if bs = [0, 0] then ''AAA='' else []),
      get_whisper_model = None,
      whisper = (\<lambda>samples. Inr ['' Hello'']),
      ollama = (\<lambda>messages. (if length messages \<le> 2 then [first_reply] else [later_reply], None)),
      piper = (\<lambda>text. ([[0, 0]], None))\<rparr>"

text \<open>The same with a language model whose stream breaks after its first line, and with
  a transcriber that hears nothing.\<close>

definition broken_stream_env :: env where
  "broken_stream_env =
     demo_env\<lparr>ollama := (\<lambda>messages. ([first_reply], Some (ServiceError ''ReadTimeout'')))\<rparr>"

definition silent_env :: env where
  "silent_env = demo_env\<lparr>whisper := (\<lambda>samples. Inr ['' ''])\<rparr>"

text \<open>A synthesizer that raises at once, with a reply that ends a sentence, and with a
  reply that leaves its text in the sentence buffer until the stream has ended.\<close>

definition broken_voice_env :: env where
  "broken_voice_env =
     demo_env\<lparr>ollama := (\<lambda>messages. ([first_reply], None)),
              piper := (\<lambda>text. ([], Some (ServiceError ''voice'')))\<rparr>"

definition broken_voice_trailing_env :: env where
  "broken_voice_trailing_env =
     demo_env\<lparr>ollama := (\<lambda>messages. ([open_reply], None)),
              piper := (\<lambda>text. ([], Some (ServiceError ''voice'')))\<rparr>"


text \<open>A session that has received one audio frame and nothing else.\<close>

definition recording :: session where
  "recording = \<lparr>conversation_history = [Turn System ''You are a helpful voice assistant.''],
                 audio_buffer = [0, 0], sample_rate = JNum 16000\<rparr>"

section \<open>Properties of the segmenter\<close>

subsection \<open>Trimming\<close>

lemma filter_dropWhile_isspace:
  "filter (\<lambda>c. \<not> isspace c) (dropWhile isspace s) = filter (\<lambda>c. \<not> isspace c) s"
  by (induction s) auto

lemma filter_nonspace_strip:
  "filter (\<lambda>c. \<not> isspace c) (strip s) = filter (\<lambda>c. \<not> isspace c) s"
proof -
  have "filter (\<lambda>c. \<not> isspace c) (rstrip t) = filter (\<lambda>c. \<not> isspace c) t" for t
  proof -
    have "rev (filter (\<lambda>c. \<not> isspace c) (rstrip t)) = rev (filter (\<lambda>c. \<not> isspace c) t)"
      unfolding rstrip_def rev_filter rev_rev_ident
      by (simp add: filter_dropWhile_isspace)
    then show ?thesis by simp
  qed
  then show ?thesis
    by (simp add: strip_def lstrip_def filter_dropWhile_isspace)
qed

lemma strip_empty_nonspace:
  "strip s = [] \<Longrightarrow> filter (\<lambda>c. \<not> isspace c) s = []"
  using filter_nonspace_strip [of s] by simp

lemma strip_ender_nonempty:
  "\<not> isspace c \<Longrightarrow> strip (pre @ [c]) \<noteq> []"
  using strip_empty_nonspace [of "pre @ [c]"] by auto

lemma strip_ends:
  "\<exists>l r. s = l @ strip s @ r \<and> filter (\<lambda>c. \<not> isspace c) (l @ r) = []"
proof -
  have l: "s = takeWhile isspace s @ lstrip s"
    by (simp add: lstrip_def)
  have "rev (lstrip s) = takeWhile isspace (rev (lstrip s)) @ dropWhile isspace (rev (lstrip s))"
    by simp
  then have "lstrip s = rev (dropWhile isspace (rev (lstrip s)))
                          @ rev (takeWhile isspace (rev (lstrip s)))"
    by (metis rev_append rev_rev_ident)
  then have r: "lstrip s = strip s @ rev (takeWhile isspace (rev (lstrip s)))"
    by (simp add: strip_def rstrip_def)
  have f: "filter (\<lambda>c. \<not> isspace c) (takeWhile isspace xs) = []" for xs
    by (induction xs) simp_all
  have "s = takeWhile isspace s @ strip s @ rev (takeWhile isspace (rev (lstrip s)))"
    using l r by metis
  moreover have "filter (\<lambda>c. \<not> isspace c)
      (takeWhile isspace s @ rev (takeWhile isspace (rev (lstrip s)))) = []"
    using f [of s] f [of "rev (lstrip s)"] by (simp add: rev_filter [symmetric])
  ultimately show ?thesis by blast
qed

lemma strip_hd_last:
  assumes "strip s \<noteq> []"
  shows "\<not> isspace (hd (strip s)) \<and> \<not> isspace (last (strip s))"
proof -
  define y where "y = dropWhile isspace (rev (lstrip s))"
  have s: "strip s = rev y" by (simp add: strip_def rstrip_def y_def)
  with assms have ne: "y \<noteq> []" by simp
  then have "\<not> isspace (hd y)" unfolding y_def by (rule hd_dropWhile)
  then have la: "\<not> isspace (last (strip s))"
    using ne by (simp add: s last_rev)
  have "lstrip s \<noteq> []" using ne y_def by auto
  then have h: "\<not> isspace (hd (lstrip s))"
    unfolding lstrip_def by (rule hd_dropWhile)
  have "rev (lstrip s) = takeWhile isspace (rev (lstrip s)) @ y"
    by (simp add: y_def)
  then have "lstrip s = rev y @ rev (takeWhile isspace (rev (lstrip s)))"
    by (metis rev_append rev_rev_ident)
  then have "hd (lstrip s) = hd (rev y)"
    using ne by (metis hd_append2 rev_is_Nil_conv)
  with h la show ?thesis by (simp add: s)
qed

lemma spans_trimmed:
  assumes "\<forall>span \<in> set spans. strip span \<noteq> []"
  shows "list_all2
           (\<lambda>span sentence. sentence = strip span \<and> sentence \<noteq> []
              \<and> \<not> isspace (hd sentence) \<and> \<not> isspace (last sentence)
              \<and> (\<exists>l r. span = l @ sentence @ r \<and> filter (\<lambda>c. \<not> isspace c) (l @ r) = []))
           spans (map strip spans)"
  using assms
proof (induction spans)
  case Nil
  then show ?case by simp
next
  case (Cons span spans)
  then have "strip span \<noteq> []" by simp
  with strip_hd_last [of span] strip_ends [of span] Cons show ?case by simp
qed

subsection \<open>Where the segmenter cuts\<close>

lemma rfind_last:
  "c \<in> set b \<Longrightarrow>
   \<exists>pre post. b = pre @ c # post \<and> c \<notin> set post \<and> rfind b c = int (length pre)"
proof (induction b)
  case Nil
  then show ?case by simp
next
  case (Cons x xs)
  show ?case
  proof (cases "c \<in> set xs")
    case True
    then obtain pre post
      where "xs = pre @ c # post" "c \<notin> set post" "rfind xs c = int (length pre)"
      using Cons.IH by blast
    then have "x # xs = (x # pre) @ c # post \<and> c \<notin> set post
                 \<and> rfind (x # xs) c = int (length (x # pre))"
      by (simp add: Let_def)
    then show ?thesis by blast
  next
    case False
    have neg: "rfind ys c < 0" if "c \<notin> set ys" for ys
      using that by (induction ys) (auto simp: Let_def)
    from False Cons.prems have "x = c" by simp
    then have "x # xs = [] @ c # xs \<and> c \<notin> set xs
                 \<and> rfind (x # xs) c = int (length ([]::string))"
      using False neg [of xs] by (simp add: Let_def)
    then show ?thesis by blast
  qed
qed

lemma scan_enders_first_present:
  assumes "\<exists>c \<in> set es. c \<in> set b" and "\<forall>c \<in> set es. \<not> isspace c"
  shows "\<exists>pre post. b = pre @ hd (filter (\<lambda>c. c \<in> set b) es) # post
           \<and> hd (filter (\<lambda>c. c \<in> set b) es) \<notin> set post
           \<and> scan_enders es b
               = (Some (strip (pre @ [hd (filter (\<lambda>c. c \<in> set b) es)])), post)"
  using assms
proof (induction es)
  case Nil
  then show ?case by simp
next
  case (Cons ender rest)
  show ?case
  proof (cases "ender \<in> set b")
    case True
    then obtain pre post where p: "b = pre @ ender # post" "ender \<notin> set post"
        "rfind b ender = int (length pre)"
      using rfind_last by blast
    have n: "nat (rfind b ender + 1) = Suc (length pre)"
      using p(3) by simp
    have t: "take (Suc (length pre)) b = pre @ [ender]"
      and d: "drop (Suc (length pre)) b = post"
      using p(1) by simp_all
    have ne: "strip (pre @ [ender]) \<noteq> []"
      using Cons.prems(2) strip_ender_nonempty by simp
    have "scan_enders (ender # rest) b = (Some (strip (pre @ [ender])), post)"
      using True ne by (simp add: Let_def n t d)
    with True p show ?thesis by auto
  next
    case False
    with Cons obtain pre post
      where "b = pre @ hd (filter (\<lambda>c. c \<in> set b) rest) # post"
        "hd (filter (\<lambda>c. c \<in> set b) rest) \<notin> set post"
        "scan_enders rest b
           = (Some (strip (pre @ [hd (filter (\<lambda>c. c \<in> set b) rest)])), post)"
      by auto
    with False show ?thesis by auto
  qed
qed

lemma scan_enders_absent:
  "\<forall>c \<in> set es. c \<notin> set b \<Longrightarrow> scan_enders es b = (None, b)"
  by (induction es) simp_all

lemma scan_enders_some_nonempty:
  "scan_enders es b = (Some sentence, b') \<Longrightarrow> sentence \<noteq> []"
  by (induction es) (auto simp: Let_def split: if_splits)

text \<open>
  Claim C3, as the specification states it: the cut is at the last ending character of
  any of the three kinds (\<open>spec_feed\<close>). On the delta \<^verbatim>\<open>"a. b?"\<close> the handler cuts after
  the full stop, the last occurrence of the first kind it finds, and leaves \<^verbatim>\<open>" b?"\<close> in
  the buffer without scanning it.
\<close>

theorem segmenter_last_of_any_kind_counterexample:
  "feed '''' ''a. b?'' = (Some ''a.'', '' b?'')
   \<and> spec_feed '''' ''a. b?'' = (Some ''a. b?'', '''')
   \<and> feed '''' ''a. b?'' \<noteq> spec_feed '''' ''a. b?''"
  by (simp add: feed_def spec_feed_def sentence_enders_def strip_def lstrip_def rstrip_def
      isspace_def Let_def)

text \<open>
  Claim C3, amended: whenever, after appending a delta, the sentence buffer contains a
  sentence-ending character, the segmenter picks the first of \<^verbatim>\<open>.\<close>, \<^verbatim>\<open>!\<close>, \<^verbatim>\<open>?\<close> (in
  this order) that occurs in the buffer, takes the text up to and including the last
  occurrence of that character, trims it and emits it (it is never empty), and makes
  the remainder the new sentence buffer. It emits at most this one sentence for the
  delta: the remainder is not scanned until the next delta.
\<close>

theorem segmenter_cuts_at_last_of_first_kind:
  assumes "\<exists>c \<in> set sentence_enders. c \<in> set (buf @ chunk)"
  shows "\<exists>pre post.
           buf @ chunk
             = pre @ hd (filter (\<lambda>c. c \<in> set (buf @ chunk)) sentence_enders) # post
         \<and> hd (filter (\<lambda>c. c \<in> set (buf @ chunk)) sentence_enders) \<notin> set post
         \<and> feed buf chunk
             = (Some (strip (pre @ [hd (filter (\<lambda>c. c \<in> set (buf @ chunk))
                                          sentence_enders)])), post)"
proof -
  have "\<forall>c \<in> set sentence_enders. \<not> isspace c"
    by (simp add: sentence_enders_def isspace_def)
  from scan_enders_first_present [OF assms this] show ?thesis
    by (simp add: feed_def)
qed

theorem segmenter_cuts_at_last_of_first_kind_witness:
  "(\<exists>c \<in> set sentence_enders. c \<in> set ('''' @ ''a. b?''))
   \<and> (\<exists>pre post. '''' @ ''a. b?'' = pre @ CHR ''.'' # post \<and> CHR ''.'' \<notin> set post
        \<and> feed '''' ''a. b?'' = (Some (strip (pre @ ''.'')), post))"
proof -
  have h: "\<exists>c \<in> set sentence_enders. c \<in> set ('''' @ ''a. b?'')"
    by (simp add: sentence_enders_def)
  from segmenter_cuts_at_last_of_first_kind [OF h] show ?thesis
    using h by (simp add: sentence_enders_def)
qed

subsection \<open>The spans the sentences are cut from\<close>

lemma feed_span:
  "\<exists>spans. concat spans @ snd (feed buf d) = buf @ d
     \<and> (case fst (feed buf d) of None \<Rightarrow> [] | Some sentence \<Rightarrow> [sentence]) = map strip spans
     \<and> (\<forall>span \<in> set spans. strip span \<noteq> [])"
proof (cases "\<exists>c \<in> set sentence_enders. c \<in> set (buf @ d)")
  case True
  have "\<forall>c \<in> set sentence_enders. \<not> isspace c"
    by (simp add: sentence_enders_def isspace_def)
  from scan_enders_first_present [OF True this]
  obtain pre post ender where c: "buf @ d = pre @ ender # post"
    "feed buf d = (Some (strip (pre @ [ender])), post)"
    unfolding feed_def by blast
  from c(2) have "strip (pre @ [ender]) \<noteq> []"
    unfolding feed_def by (rule scan_enders_some_nonempty)
  with c have "concat [pre @ [ender]] @ snd (feed buf d) = buf @ d
     \<and> (case fst (feed buf d) of None \<Rightarrow> [] | Some sentence \<Rightarrow> [sentence])
         = map strip [pre @ [ender]]
     \<and> (\<forall>span \<in> set [pre @ [ender]]. strip span \<noteq> [])"
    by simp
  then show ?thesis by blast
next
  case False
  then have "feed buf d = (None, buf @ d)"
    unfolding feed_def by (intro scan_enders_absent) blast
  then have "concat [] @ snd (feed buf d) = buf @ d
     \<and> (case fst (feed buf d) of None \<Rightarrow> [] | Some sentence \<Rightarrow> [sentence]) = map strip []
     \<and> (\<forall>span \<in> set []. strip span \<noteq> [])"
    by simp
  then show ?thesis by blast
qed

lemma feed_all_spans:
  "\<exists>spans. concat spans @ snd (feed_all buf deltas) = buf @ concat deltas
     \<and> concat (fst (feed_all buf deltas)) = map strip spans
     \<and> (\<forall>span \<in> set spans. strip span \<noteq> [])"
proof (induction deltas arbitrary: buf)
  case Nil
  have "concat [] @ snd (feed_all buf []) = buf @ concat []
     \<and> concat (fst (feed_all buf [])) = map strip []
     \<and> (\<forall>span \<in> set []. strip span \<noteq> [])"
    by simp
  then show ?case by blast
next
  case (Cons d ds)
  obtain r b' where f: "feed buf d = (r, b')" by (cases "feed buf d")
  obtain more fin where fa: "feed_all b' ds = (more, fin)" by (cases "feed_all b' ds")
  from feed_span [of buf d] f obtain spans1
    where s1: "concat spans1 @ b' = buf @ d"
      "(case r of None \<Rightarrow> [] | Some sentence \<Rightarrow> [sentence]) = map strip spans1"
      "\<forall>span \<in> set spans1. strip span \<noteq> []"
    by auto
  from Cons.IH [of b'] fa obtain spans2
    where s2: "concat spans2 @ fin = b' @ concat ds" "concat more = map strip spans2"
      "\<forall>span \<in> set spans2. strip span \<noteq> []"
    by auto
  have "concat (spans1 @ spans2) @ fin = (concat spans1 @ b') @ concat ds"
    using s2(1) by simp
  then have "concat (spans1 @ spans2) @ snd (feed_all buf (d # ds)) = buf @ concat (d # ds)
     \<and> concat (fst (feed_all buf (d # ds))) = map strip (spans1 @ spans2)
     \<and> (\<forall>span \<in> set (spans1 @ spans2). strip span \<noteq> [])"
    using s1 s2(2,3) by (auto simp add: f fa)
  then show ?case by blast
qed

text \<open>
  Claim C2, as the specification states it: the emitted sentences followed by the final
  sentence buffer concatenate to the concatenation of the deltas. It fails on the
  specification's own two deltas: the sentence cut from \<^verbatim>\<open>" How are you? Fine."\<close> is
  trimmed, and its leading space is gone.
\<close>

theorem segmenter_concat_counterexample:
  "concat (concat (fst (feed_all [] [''Hello world. How are'', '' you? Fine.''])))
     @ snd (feed_all [] [''Hello world. How are'', '' you? Fine.''])
   \<noteq> concat [''Hello world. How are'', '' you? Fine.'']"
  by (simp add: feed_def sentence_enders_def strip_def lstrip_def rstrip_def isspace_def)

text \<open>
  Claim C2, amended: for every sequence of deltas, their concatenation is cut into
  consecutive spans followed by the final sentence buffer: the spans and the buffer
  concatenate to it exactly, no character dropped or duplicated. The emitted sentences
  are, in emission order, these spans, each trimmed: a sentence is its span without the
  whitespace at the span's two ends, it is not empty, and it begins and ends with a
  character that is not whitespace. So the sentences followed by the buffer differ from
  the concatenated deltas only by whitespace removed at the ends of spans.
\<close>

theorem segmenter_spans_concat:
  "\<exists>spans.
     concat spans @ snd (feed_all [] deltas) = concat deltas
   \<and> list_all2
       (\<lambda>span sentence. sentence = strip span \<and> sentence \<noteq> []
          \<and> \<not> isspace (hd sentence) \<and> \<not> isspace (last sentence)
          \<and> (\<exists>l r. span = l @ sentence @ r \<and> filter (\<lambda>c. \<not> isspace c) (l @ r) = []))
       spans (concat (fst (feed_all [] deltas)))"
proof -
  from feed_all_spans [of "[]" deltas] obtain spans
    where s: "concat spans @ snd (feed_all [] deltas) = concat deltas"
      "concat (fst (feed_all [] deltas)) = map strip spans"
      "\<forall>span \<in> set spans. strip span \<noteq> []"
    by auto
  from spans_trimmed [OF s(3)] s(1,2) show ?thesis by auto
qed

subsection \<open>The specification's two deltas\<close>

text \<open>
  Claim C4, as the specification states it: the second delta yields the two sentences
  \<^verbatim>\<open>"How are you?"\<close> and \<^verbatim>\<open>"Fine."\<close>. The handler emits one sentence for it.
\<close>

theorem two_deltas_counterexample:
  "fst (feed_all [] [''Hello world. How are'', '' you? Fine.''])
     \<noteq> [[''Hello world.''], [''How are you?'', ''Fine.'']]"
  by (simp add: feed_def sentence_enders_def strip_def lstrip_def rstrip_def isspace_def)

text \<open>
  Claim C4, amended: on the deltas \<^verbatim>\<open>"Hello world. How are"\<close> and \<^verbatim>\<open>" you? Fine."\<close>,
  from an empty buffer, exactly the sentence \<^verbatim>\<open>"Hello world."\<close> is emitted after the first
  delta and exactly the one sentence \<^verbatim>\<open>"How are you? Fine."\<close> after the second, and the
  buffer is empty at the end.
\<close>

theorem two_deltas_emitted:
  "feed_all [] [''Hello world. How are'', '' you? Fine.'']
     = ([[''Hello world.''], [''How are you? Fine.'']], [])"
  by (simp add: feed_def sentence_enders_def strip_def lstrip_def rstrip_def isspace_def)


section \<open>Properties of the handler\<close>

lemmas demo_defs = demo_env_def audio_frame_def end_audio_frame_def clear_history_frame_def
  truncated_frame_def first_reply_def later_reply_def open_reply_def broken_stream_env_def
  silent_env_def broken_voice_env_def broken_voice_trailing_env_def recording_def

lemmas handler_defs = websocket_endpoint_def accept_def init_conversation_def handle_frame_def
  audio_msg_def end_audio_def transcribe_audio_def chat_stream_def on_chunk_def speak_def
  line_content_def feed_def sentence_enders_def strip_def lstrip_def rstrip_def isspace_def
  tts_sample_rate_def

subsection \<open>Dispatch\<close>

lemma handle_frame_end_audio:
  "frame_type e message = Some (JStr ''end_audio'') \<Longrightarrow>
   handle_frame e s message = end_audio e s"
  by (auto simp: frame_type_def handle_frame_def split: option.splits json.splits)

lemma handle_frame_clear_history:
  "frame_type e message = Some (JStr ''clear_history'') \<Longrightarrow>
   handle_frame e s message
     = \<lparr>state = s\<lparr>conversation_history := init_conversation e\<rparr>,
        sent = [HistoryCleared], raised = None\<rparr>"
  by (auto simp: frame_type_def handle_frame_def split: option.splits json.splits)

subsection \<open>End of audio with an empty buffer\<close>

text \<open>
  Claim C8: an \<^verbatim>\<open>end_audio\<close> message received while the audio buffer is empty yields
  exactly one \<^verbatim>\<open>error\<close> message, \<^verbatim>\<open>No audio received\<close>, and no other message, raises
  nothing and leaves the whole session state (history, buffer, sample rate) as it was.
\<close>

theorem end_audio_empty_buffer:
  assumes "frame_type e message = Some (JStr ''end_audio'')" and "audio_buffer s = []"
  shows "handle_frame e s message
           = \<lparr>state = s, sent = [ErrorMsg ''No audio received''], raised = None\<rparr>"
  using assms by (simp add: handle_frame_end_audio end_audio_def)

theorem end_audio_empty_buffer_witness:
  "frame_type demo_env end_audio_frame = Some (JStr ''end_audio'')
   \<and> audio_buffer (accept demo_env) = []
   \<and> handle_frame demo_env (accept demo_env) end_audio_frame
       = \<lparr>state = accept demo_env, sent = [ErrorMsg ''No audio received''], raised = None\<rparr>"
proof -
  have h1: "frame_type demo_env end_audio_frame = Some (JStr ''end_audio'')"
    by (simp add: frame_type_def demo_defs)
  have h2: "audio_buffer (accept demo_env) = []"
    by (simp add: accept_def)
  from end_audio_empty_buffer [OF h1 h2] h1 h2 show ?thesis by simp
qed

subsection \<open>The transcript message and the empty transcript\<close>

lemma strip_result_all_space:
  assumes "list_all isspace (strip x)"
  shows "strip x = []"
proof (rule ccontr)
  assume ne: "strip x \<noteq> []"
  define y where "y = dropWhile isspace (rev (lstrip x))"
  have s: "strip x = rev y" by (simp add: strip_def rstrip_def y_def)
  with ne have "y \<noteq> []" by simp
  then have "\<not> isspace (hd y)" unfolding y_def by (rule hd_dropWhile)
  moreover have "hd y \<in> set (strip x)" using \<open>y \<noteq> []\<close> s by simp
  ultimately show False using assms by (simp add: list_all_iff)
qed

lemma transcribe_audio_stripped:
  "transcribe_audio e audio rate = Inr text \<Longrightarrow> list_all isspace text \<Longrightarrow> text = []"
  by (auto simp: transcribe_audio_def strip_result_all_space split: sum.splits option.splits)

text \<open>
  Claim C7: on \<^verbatim>\<open>end_audio\<close> with a non-empty audio buffer, once transcription has
  returned a text, the first message sent is \<^verbatim>\<open>transcript\<close> with that text, also when
  the text is empty; and whenever the text is empty or whitespace only, the only other
  message is the \<^verbatim>\<open>error\<close> \<^verbatim>\<open>Could not transcribe audio\<close>, the turn ends there without an
  exception, and the history is unchanged: no user turn is appended.
\<close>

theorem end_audio_transcript_first:
  assumes "frame_type e message = Some (JStr ''end_audio'')"
    and "audio_buffer s \<noteq> []"
    and "transcribe_audio e (audio_buffer s) (sample_rate s) = Inr text"
  shows "take 1 (sent (handle_frame e s message)) = [TranscriptMsg text]
       \<and> (list_all isspace text \<longrightarrow>
            sent (handle_frame e s message)
              = [TranscriptMsg text, ErrorMsg ''Could not transcribe audio'']
          \<and> raised (handle_frame e s message) = None
          \<and> conversation_history (state (handle_frame e s message)) = conversation_history s)"
proof -
  have hf: "handle_frame e s message = end_audio e s"
    using assms(1) by (rule handle_frame_end_audio)
  have first: "take 1 (sent (end_audio e s)) = [TranscriptMsg text]"
    using assms(2,3) by (simp add: end_audio_def split: prod.splits option.splits)
  have "sent (end_audio e s) = [TranscriptMsg text, ErrorMsg ''Could not transcribe audio'']
        \<and> raised (end_audio e s) = None
        \<and> conversation_history (state (end_audio e s)) = conversation_history s"
    if "list_all isspace text"
  proof -
    from that assms(3) have "text = []" by (rule transcribe_audio_stripped[rotated])
    with assms(2,3) show ?thesis by (simp add: end_audio_def)
  qed
  with first hf show ?thesis by simp
qed

theorem end_audio_transcript_first_witness:
  "frame_type silent_env end_audio_frame = Some (JStr ''end_audio'')
   \<and> audio_buffer recording \<noteq> []
   \<and> transcribe_audio silent_env (audio_buffer recording) (sample_rate recording) = Inr []
   \<and> list_all isspace []
   \<and> take 1 (sent (handle_frame silent_env recording end_audio_frame)) = [TranscriptMsg []]
   \<and> sent (handle_frame silent_env recording end_audio_frame)
       = [TranscriptMsg [], ErrorMsg ''Could not transcribe audio'']
   \<and> raised (handle_frame silent_env recording end_audio_frame) = None
   \<and> conversation_history (state (handle_frame silent_env recording end_audio_frame))
       = conversation_history recording"
proof -
  have h1: "frame_type silent_env end_audio_frame = Some (JStr ''end_audio'')"
    by (simp add: frame_type_def demo_defs)
  have h2: "audio_buffer recording \<noteq> []"
    by (simp add: recording_def)
  have h3: "transcribe_audio silent_env (audio_buffer recording) (sample_rate recording) = Inr []"
    by (simp add: demo_defs transcribe_audio_def strip_def lstrip_def rstrip_def isspace_def)
  from end_audio_transcript_first [OF h1 h2 h3] h1 h2 h3 show ?thesis by simp
qed

subsection \<open>A frame that is not JSON\<close>

lemma malformed_frame_raises:
  "json_loads e message = None \<Longrightarrow>
   websocket_loop e s (message # rest)
     = \<lparr>final = s, trace = [Recv message], ended = Some JSONDecodeError\<rparr>"
  by (simp add: handle_frame_def Let_def)

text \<open>
  Claim C6 on the handler: a frame that is not well-formed JSON makes \<^verbatim>\<open>json.loads\<close>
  raise outside any matching \<^verbatim>\<open>except\<close>. Here the client sends an audio frame, a
  truncated frame and an \<^verbatim>\<open>end_audio\<close> frame: the session state is unchanged by the
  truncated frame, but the exception leaves the handler, and the \<^verbatim>\<open>end_audio\<close> frame is
  never read.
\<close>

theorem malformed_frame_ends_handler:
  "websocket_endpoint demo_env [audio_frame, truncated_frame, end_audio_frame]
     = \<lparr>final = \<lparr>conversation_history = [Turn System ''You are a helpful voice assistant.''],
                  audio_buffer = [0, 0], sample_rate = JNum 16000\<rparr>,
        trace = [Recv audio_frame, Recv truncated_frame],
        ended = Some JSONDecodeError\<rparr>"
  by (simp add: demo_defs handler_defs)

subsection \<open>A failure after the user turn\<close>

lemma speak_stream_msgs: "filter (\<lambda>m. \<not> stream_msg m) (fst (speak e text)) = []"
  by (simp add: speak_def split: prod.splits)

lemma on_chunk_stream_msgs:
  "filter (\<lambda>m. \<not> stream_msg m) (fst (on_chunk e buf chunk)) = []"
  by (auto simp: on_chunk_def speak_def split: prod.splits option.splits)

lemma drain_stream_msgs:
  "filter (\<lambda>m. \<not> stream_msg m) (emitted st) = [] \<Longrightarrow>
   filter (\<lambda>m. \<not> stream_msg m) (emitted (fst (drain e lines st))) = []"
proof (induction lines arbitrary: st)
  case Nil
  then show ?case by simp
next
  case (Cons line lines)
  show ?case
  proof (cases "line = []")
    case True
    with Cons show ?thesis by simp
  next
    case False
    show ?thesis
    proof (cases "json_loads e line")
      case None
      with False Cons show ?thesis by simp
    next
      case (Some data)
      show ?thesis
      proof (cases "line_content data")
        case (Inl err)
        with False Some Cons.prems show ?thesis by simp
      next
        case (Inr c)
        show ?thesis
        proof (cases c)
          case None
          with False Some Inr Cons show ?thesis by simp
        next
          case (Some content)
          obtain msgs buf' failure
            where oc: "on_chunk e (sentence_buffer st) content = (msgs, buf', failure)"
            by (cases "on_chunk e (sentence_buffer st) content")
          define st' where "st' = \<lparr>full_response = full_response st @ content,
              sentence_buffer = buf', emitted = emitted st @ msgs\<rparr>"
          have "filter (\<lambda>m. \<not> stream_msg m) msgs = []"
            using on_chunk_stream_msgs [of e "sentence_buffer st" content] oc by simp
          then have em: "filter (\<lambda>m. \<not> stream_msg m) (emitted st') = []"
            using Cons.prems by (simp add: st'_def)
          have "drain e (line # lines) st
                  = (case failure of Some err \<Rightarrow> (st', Some err) | None \<Rightarrow> drain e lines st')"
            using False \<open>json_loads e line = Some data\<close> Inr Some oc
            by (cases failure) (simp_all add: st'_def Let_def)
          then show ?thesis
            using em Cons.IH [OF em] by (cases failure) simp_all
        qed
      qed
    qed
  qed
qed

lemma no_stream_msg_error:
  assumes "filter (\<lambda>m. \<not> stream_msg m) ms = []"
  shows "filter is_error ms = [] \<and> Done \<notin> set ms"
proof -
  have "\<forall>m \<in> set ms. stream_msg m"
    using assms by (simp add: filter_empty_conv)
  moreover have "stream_msg m \<Longrightarrow> \<not> is_error m \<and> m \<noteq> Done" for m
    by (cases m) auto
  ultimately show ?thesis
    by (auto simp: filter_empty_conv)
qed

text \<open>
  Claim C5, as the specification states it: after a failure of the language model stream
  the assistant turn is appended with the text so far, an \<^verbatim>\<open>error\<close> message is sent and
  the session goes on. Here the stream breaks after its first line: the history ends
  with the user turn, the last message sent is audio, and the exception leaves the
  handler, so the audio frame that follows is never read.
\<close>

theorem broken_stream_counterexample:
  "websocket_endpoint broken_stream_env [audio_frame, end_audio_frame, audio_frame]
     = \<lparr>final = \<lparr>conversation_history =
                    [Turn System ''You are a helpful voice assistant.'', Turn User ''Hello''],
                  audio_buffer = [0, 0], sample_rate = JNum 16000\<rparr>,
        trace = [Recv audio_frame, Recv end_audio_frame,
                 Send (TranscriptMsg ''Hello''),
                 Send (ResponseText ''Hi there.'' False),
                 Send (AudioMsg ''AAA='' 22050)],
        ended = Some (ServiceError ''ReadTimeout'')\<rparr>"
  by (simp add: demo_defs handler_defs)

lemma exception_after_user_turn:
  assumes "frame_type e message = Some (JStr ''end_audio'')"
    and "audio_buffer s \<noteq> []"
    and "transcribe_audio e (audio_buffer s) (sample_rate s) = Inr transcript"
    and "transcript \<noteq> []"
    and "raised (handle_frame e s message) = Some err"
  shows "conversation_history (state (handle_frame e s message))
           = conversation_history s @ Turn User transcript
               # (case snd (snd (chat_stream e (conversation_history s) transcript)) of
                    Some failure \<Rightarrow> []
                  | None \<Rightarrow>
                      [Turn Assistant
                         (full_response (fst (snd (chat_stream e (conversation_history s)
                                                     transcript))))])
       \<and> filter is_error (sent (handle_frame e s message)) = []
       \<and> Done \<notin> set (sent (handle_frame e s message))
       \<and> websocket_loop e s (message # rest)
           = \<lparr>final = state (handle_frame e s message),
              trace = Recv message # map Send (sent (handle_frame e s message)),
              ended = Some err\<rparr>"
proof -
  have hf: "handle_frame e s message = end_audio e s"
    using assms(1) by (rule handle_frame_end_audio)
  obtain history' st failure
    where cs: "chat_stream e (conversation_history s) transcript = (history', st, failure)"
    by (cases "chat_stream e (conversation_history s) transcript")
  obtain lines stream_failure
    where ol: "ollama e (conversation_history s @ [Turn User transcript])
                 = (lines, stream_failure)"
    by (cases "ollama e (conversation_history s @ [Turn User transcript])")
  obtain st0 df
    where dr: "drain e lines \<lparr>full_response = [], sentence_buffer = [], emitted = []\<rparr>
                 = (st0, df)"
    by (cases "drain e lines \<lparr>full_response = [], sentence_buffer = [], emitted = []\<rparr>")
  have st: "st = st0"
    using cs ol dr by (auto simp: chat_stream_def Let_def split: option.splits)
  have hist: "history' = conversation_history s @ Turn User transcript
                # (case failure of Some x \<Rightarrow> [] | None \<Rightarrow> [Turn Assistant (full_response st)])"
    using cs ol dr by (auto simp: chat_stream_def Let_def split: option.splits)
  have "filter (\<lambda>m. \<not> stream_msg m) (emitted st0) = []"
    using drain_stream_msgs
            [of "\<lparr>full_response = [], sentence_buffer = [], emitted = []\<rparr>" e lines] dr
    by simp
  then have em: "filter (\<lambda>m. \<not> stream_msg m) (emitted st) = []"
    by (simp add: st)
  obtain audio sf
    where fl: "(if strip (sentence_buffer st) \<noteq> []
                then speak e (strip (sentence_buffer st)) else ([], None)) = (audio, sf)"
    by (cases "if strip (sentence_buffer st) \<noteq> []
                then speak e (strip (sentence_buffer st)) else ([], None)")
  have au: "filter (\<lambda>m. \<not> stream_msg m) audio = []"
    using fl speak_stream_msgs [of e "strip (sentence_buffer st)"]
    by (auto split: if_splits)
  have r: "raised (end_audio e s) = Some err"
    using assms(5) hf by simp
  have h1: "conversation_history (state (end_audio e s)) = history'"
    using assms(2,3,4) cs fl r
    by (cases failure; cases sf) (simp_all add: end_audio_def)
  have "\<exists>ms. sent (end_audio e s) = TranscriptMsg transcript # ms
          \<and> filter (\<lambda>m. \<not> stream_msg m) ms = []"
    using assms(2,3,4) cs fl r em au
    by (cases failure; cases sf) (simp_all add: end_audio_def)
  then obtain ms where ms: "sent (end_audio e s) = TranscriptMsg transcript # ms"
      "filter (\<lambda>m. \<not> stream_msg m) ms = []"
    by blast
  have h2: "filter is_error (sent (end_audio e s)) = [] \<and> Done \<notin> set (sent (end_audio e s))"
    using ms no_stream_msg_error [OF ms(2)] by simp
  have h3: "websocket_loop e s (message # rest)
           = \<lparr>final = state (handle_frame e s message),
              trace = Recv message # map Send (sent (handle_frame e s message)),
              ended = Some err\<rparr>"
    using assms(5) by (simp add: Let_def)
  have h4: "conversation_history (state (handle_frame e s message))
           = conversation_history s @ Turn User transcript
               # (case snd (snd (chat_stream e (conversation_history s) transcript)) of
                    Some failure \<Rightarrow> []
                  | None \<Rightarrow>
                      [Turn Assistant
                         (full_response (fst (snd (chat_stream e (conversation_history s)
                                                     transcript))))])"
    using h1 hist by (cases failure) (simp_all add: hf cs)
  have h5: "filter is_error (sent (handle_frame e s message)) = []
            \<and> Done \<notin> set (sent (handle_frame e s message))"
    using h2 by (simp add: hf)
  from h4 h5 h3 show ?thesis by blast
qed

lemma drain_append:
  "drain e (before @ after) st
     = (case drain e before st of
          (st1, Some err) \<Rightarrow> (st1, Some err)
        | (st1, None) \<Rightarrow> drain e after st1)"
proof (induction before arbitrary: st)
  case Nil
  then show ?case by simp
next
  case (Cons line lines)
  show ?case
  proof (cases "line = []")
    case True
    with Cons show ?thesis by simp
  next
    case False
    show ?thesis
    proof (cases "json_loads e line")
      case None
      with False Cons show ?thesis by simp
    next
      case (Some data)
      show ?thesis
      proof (cases "line_content data")
        case (Inl err)
        with False Some show ?thesis by simp
      next
        case (Inr c)
        show ?thesis
        proof (cases c)
          case None
          with False Some Inr Cons show ?thesis by simp
        next
          case (Some content)
          obtain msgs buf' failure
            where oc: "on_chunk e (sentence_buffer st) content = (msgs, buf', failure)"
            by (cases "on_chunk e (sentence_buffer st) content")
          show ?thesis
            using False \<open>json_loads e line = Some data\<close> Inr Some oc Cons.IH
            by (cases failure) (simp_all add: Let_def)
        qed
      qed
    qed
  qed
qed

lemma drain_synthesizer_failure:
  assumes "drain e before st0 = (st1, None)"
    and "line \<noteq> []"
    and "json_loads e line = Some data"
    and "line_content data = Inr (Some content)"
    and "fst (feed (sentence_buffer st1) content) = Some sentence"
    and "snd (piper e sentence) = Some err"
  shows "snd (drain e (before @ line # after) st0) = Some err"
proof -
  obtain buf' where f: "feed (sentence_buffer st1) content = (Some sentence, buf')"
    using assms(5) by (cases "feed (sentence_buffer st1) content") simp
  obtain chunks where p: "piper e sentence = (chunks, Some err)"
    using assms(6) by (cases "piper e sentence") simp
  have "snd (snd (on_chunk e (sentence_buffer st1) content)) = Some err"
    by (simp add: on_chunk_def f speak_def p)
  then obtain msgs b where "on_chunk e (sentence_buffer st1) content = (msgs, b, Some err)"
    by (cases "on_chunk e (sentence_buffer st1) content") auto
  then have "snd (drain e (line # after) st1) = Some err"
    using assms(2,3,4) by (simp add: Let_def)
  then show ?thesis
    by (simp add: drain_append assms(1))
qed

text \<open>
  Claim C5, amended: if the language model stream fails, or the synthesizer fails on a
  sentence cut while the stream is read or on the trailing sentence, after the user turn
  has been appended, then an exception leaves the connection handler. The history keeps
  the user turn; an assistant turn follows it only when the stream had already ended
  without a failure (the failure is then the synthesizer's, on the trailing sentence),
  and never with partial text. No \<^verbatim>\<open>error\<close> and no \<^verbatim>\<open>done\<close> message is sent, and no
  further frame is read.
\<close>

theorem failure_after_user_turn:
  assumes "frame_type e message = Some (JStr ''end_audio'')"
    and "audio_buffer s \<noteq> []"
    and "transcribe_audio e (audio_buffer s) (sample_rate s) = Inr transcript"
    and "transcript \<noteq> []"
    and "ollama e (conversation_history s @ [Turn User transcript]) = (lines, stream_failure)"
    and "stream_failure = Some err
       \<or> (lines = before @ line # after
            \<and> drain e before \<lparr>full_response = [], sentence_buffer = [], emitted = []\<rparr>
                = (st1, None)
            \<and> line \<noteq> [] \<and> json_loads e line = Some data
            \<and> line_content data = Inr (Some content)
            \<and> fst (feed (sentence_buffer st1) content) = Some sentence
            \<and> snd (piper e sentence) = Some err)
       \<or> (stream_failure = None
            \<and> drain e lines \<lparr>full_response = [], sentence_buffer = [], emitted = []\<rparr>
                = (st, None)
            \<and> strip (sentence_buffer st) \<noteq> []
            \<and> snd (piper e (strip (sentence_buffer st))) = Some err)"
  shows "raised (handle_frame e s message) \<noteq> None
       \<and> conversation_history (state (handle_frame e s message))
           = conversation_history s @ Turn User transcript
               # (case snd (drain e lines
                              \<lparr>full_response = [], sentence_buffer = [], emitted = []\<rparr>) of
                    Some failure \<Rightarrow> []
                  | None \<Rightarrow>
                      (case stream_failure of
                         Some failure \<Rightarrow> []
                       | None \<Rightarrow>
                           [Turn Assistant
                              (full_response
                                 (fst (drain e lines
                                         \<lparr>full_response = [], sentence_buffer = [],
                                            emitted = []\<rparr>)))]))
       \<and> filter is_error (sent (handle_frame e s message)) = []
       \<and> Done \<notin> set (sent (handle_frame e s message))
       \<and> websocket_loop e s (message # rest)
           = \<lparr>final = state (handle_frame e s message),
              trace = Recv message # map Send (sent (handle_frame e s message)),
              ended = raised (handle_frame e s message)\<rparr>"
proof -
  let ?init = "\<lparr>full_response = [], sentence_buffer = [], emitted = []\<rparr>"
  have hf: "handle_frame e s message = end_audio e s"
    using assms(1) by (rule handle_frame_end_audio)
  obtain st0 df where dr: "drain e lines ?init = (st0, df)"
    by (cases "drain e lines ?init")
  have cs: "chat_stream e (conversation_history s) transcript
      = (case df of
           Some x \<Rightarrow> (conversation_history s @ [Turn User transcript], st0, Some x)
         | None \<Rightarrow>
             (case stream_failure of
                Some x \<Rightarrow> (conversation_history s @ [Turn User transcript], st0, Some x)
              | None \<Rightarrow>
                  (conversation_history s
                     @ [Turn User transcript, Turn Assistant (full_response st0)], st0, None)))"
    using assms(5) dr by (simp add: chat_stream_def Let_def split: option.splits)
  have "\<exists>x. raised (end_audio e s) = Some x"
    using assms(6)
  proof (elim disjE conjE)
    assume "stream_failure = Some err"
    then show ?thesis
      using assms(2,3,4) cs by (cases df) (simp_all add: end_audio_def)
  next
    assume a: "lines = before @ line # after" "drain e before ?init = (st1, None)"
      "line \<noteq> []" "json_loads e line = Some data" "line_content data = Inr (Some content)"
      "fst (feed (sentence_buffer st1) content) = Some sentence"
      "snd (piper e sentence) = Some err"
    have "snd (drain e (before @ line # after) ?init) = Some err"
      using a(2-7) by (rule drain_synthesizer_failure)
    then have "df = Some err" using dr a(1) by simp
    then show ?thesis
      using assms(2,3,4) cs by (simp add: end_audio_def)
  next
    assume a: "stream_failure = None" "drain e lines ?init = (st, None)"
      "strip (sentence_buffer st) \<noteq> []" "snd (piper e (strip (sentence_buffer st))) = Some err"
    then have d: "st0 = st" "df = None" using dr by simp_all
    obtain chunks where "piper e (strip (sentence_buffer st)) = (chunks, Some err)"
      using a(4) by (cases "piper e (strip (sentence_buffer st))") simp
    then show ?thesis
      using assms(2,3,4) cs a(1,3) d by (simp add: end_audio_def speak_def)
  qed
  then obtain x where x: "raised (handle_frame e s message) = Some x"
    using hf by auto
  note old = exception_after_user_turn [OF assms(1-4) x, of rest]
  have hist: "conversation_history (state (handle_frame e s message))
           = conversation_history s @ Turn User transcript
               # (case snd (drain e lines ?init) of
                    Some failure \<Rightarrow> []
                  | None \<Rightarrow>
                      (case stream_failure of
                         Some failure \<Rightarrow> []
                       | None \<Rightarrow>
                           [Turn Assistant (full_response (fst (drain e lines ?init)))]))"
    using old cs dr by (cases df; cases stream_failure) simp_all
  from old hist x show ?thesis by simp
qed

theorem failure_after_user_turn_witness:
  "frame_type broken_stream_env end_audio_frame = Some (JStr ''end_audio'')
   \<and> audio_buffer recording \<noteq> []
   \<and> transcribe_audio broken_stream_env (audio_buffer recording) (sample_rate recording)
       = Inr ''Hello''
   \<and> ollama broken_stream_env (conversation_history recording @ [Turn User ''Hello''])
       = ([first_reply], Some (ServiceError ''ReadTimeout''))
   \<and> raised (handle_frame broken_stream_env recording end_audio_frame) \<noteq> None
   \<and> conversation_history (state (handle_frame broken_stream_env recording end_audio_frame))
       = conversation_history recording @ [Turn User ''Hello'']
   \<and> filter is_error (sent (handle_frame broken_stream_env recording end_audio_frame)) = []
   \<and> Done \<notin> set (sent (handle_frame broken_stream_env recording end_audio_frame))
   \<and> websocket_loop broken_stream_env recording [end_audio_frame, clear_history_frame]
       = \<lparr>final = state (handle_frame broken_stream_env recording end_audio_frame),
          trace = Recv end_audio_frame
                    # map Send (sent (handle_frame broken_stream_env recording end_audio_frame)),
          ended = raised (handle_frame broken_stream_env recording end_audio_frame)\<rparr>
   \<and> ollama broken_voice_env (conversation_history recording @ [Turn User ''Hello''])
       = ([first_reply], None)
   \<and> fst (feed [] ''Hi there.'') = Some ''Hi there.''
   \<and> snd (piper broken_voice_env ''Hi there.'') = Some (ServiceError ''voice'')
   \<and> raised (handle_frame broken_voice_env recording end_audio_frame) \<noteq> None
   \<and> conversation_history (state (handle_frame broken_voice_env recording end_audio_frame))
       = conversation_history recording @ [Turn User ''Hello'']
   \<and> filter is_error (sent (handle_frame broken_voice_env recording end_audio_frame)) = []
   \<and> ollama broken_voice_trailing_env (conversation_history recording @ [Turn User ''Hello''])
       = ([open_reply], None)
   \<and> drain broken_voice_trailing_env [open_reply]
        \<lparr>full_response = [], sentence_buffer = [], emitted = []\<rparr>
       = (\<lparr>full_response = ''Hi there'', sentence_buffer = ''Hi there'',
            emitted = [ResponseText ''Hi there'' False]\<rparr>, None)
   \<and> snd (piper broken_voice_trailing_env (strip ''Hi there'')) = Some (ServiceError ''voice'')
   \<and> raised (handle_frame broken_voice_trailing_env recording end_audio_frame) \<noteq> None
   \<and> conversation_history
        (state (handle_frame broken_voice_trailing_env recording end_audio_frame))
       = conversation_history recording @ [Turn User ''Hello'', Turn Assistant ''Hi there'']
   \<and> filter is_error (sent (handle_frame broken_voice_trailing_env recording end_audio_frame))
       = []"
proof -
  let ?init = "\<lparr>full_response = [], sentence_buffer = [], emitted = []\<rparr>"
  have buf: "audio_buffer recording \<noteq> []"
    by (simp add: recording_def)
  have ne: "''Hello'' \<noteq> []" by simp
  have a1: "frame_type broken_stream_env end_audio_frame = Some (JStr ''end_audio'')"
    by (simp add: frame_type_def demo_defs)
  have a3: "transcribe_audio broken_stream_env (audio_buffer recording) (sample_rate recording)
              = Inr ''Hello''"
    by (simp add: demo_defs transcribe_audio_def strip_def lstrip_def rstrip_def isspace_def)
  have a5: "ollama broken_stream_env (conversation_history recording @ [Turn User ''Hello''])
              = ([first_reply], Some (ServiceError ''ReadTimeout''))"
    by (simp add: demo_defs)
  have a6: "Some (ServiceError ''ReadTimeout'') = Some (ServiceError ''ReadTimeout'')"
    by simp
  have ad: "snd (drain broken_stream_env [first_reply] ?init) = None"
    by (simp add: demo_defs handler_defs)
  note A = failure_after_user_turn [OF a1 buf a3 ne a5 disjI1 [OF a6],
      of "[clear_history_frame]"]
  have b1: "frame_type broken_voice_env end_audio_frame = Some (JStr ''end_audio'')"
    by (simp add: frame_type_def demo_defs)
  have b3: "transcribe_audio broken_voice_env (audio_buffer recording) (sample_rate recording)
              = Inr ''Hello''"
    by (simp add: demo_defs transcribe_audio_def strip_def lstrip_def rstrip_def isspace_def)
  have b5: "ollama broken_voice_env (conversation_history recording @ [Turn User ''Hello''])
              = ([first_reply], None)"
    by (simp add: demo_defs)
  have bf: "fst (feed [] ''Hi there.'') = Some ''Hi there.''"
    by (simp add: feed_def sentence_enders_def strip_def lstrip_def rstrip_def isspace_def)
  have bp: "snd (piper broken_voice_env ''Hi there.'') = Some (ServiceError ''voice'')"
    by (simp add: demo_defs)
  have b6: "[first_reply] = [] @ first_reply # []
      \<and> drain broken_voice_env [] ?init = (?init, None)
      \<and> first_reply \<noteq> []
      \<and> json_loads broken_voice_env first_reply
          = Some (JObj [(''message'', JObj [(''content'', JStr ''Hi there.'')])])
      \<and> line_content (JObj [(''message'', JObj [(''content'', JStr ''Hi there.'')])])
          = Inr (Some ''Hi there.'')
      \<and> fst (feed (sentence_buffer ?init) ''Hi there.'') = Some ''Hi there.''
      \<and> snd (piper broken_voice_env ''Hi there.'') = Some (ServiceError ''voice'')"
    using bf bp by (simp add: demo_defs line_content_def)
  have bd: "snd (drain broken_voice_env [first_reply] ?init) = Some (ServiceError ''voice'')"
    by (simp add: demo_defs handler_defs)
  note B = failure_after_user_turn [OF b1 buf b3 ne b5 disjI2 [OF disjI1 [OF b6]], of "[]"]
  have c1: "frame_type broken_voice_trailing_env end_audio_frame = Some (JStr ''end_audio'')"
    by (simp add: frame_type_def demo_defs)
  have c3: "transcribe_audio broken_voice_trailing_env (audio_buffer recording)
              (sample_rate recording) = Inr ''Hello''"
    by (simp add: demo_defs transcribe_audio_def strip_def lstrip_def rstrip_def isspace_def)
  have c5: "ollama broken_voice_trailing_env
              (conversation_history recording @ [Turn User ''Hello'']) = ([open_reply], None)"
    by (simp add: demo_defs)
  have cd: "drain broken_voice_trailing_env [open_reply] ?init
       = (\<lparr>full_response = ''Hi there'', sentence_buffer = ''Hi there'',
            emitted = [ResponseText ''Hi there'' False]\<rparr>, None)"
    by (simp add: demo_defs handler_defs)
  have cp: "snd (piper broken_voice_trailing_env (strip ''Hi there''))
              = Some (ServiceError ''voice'')"
    by (simp add: demo_defs)
  have cs: "strip ''Hi there'' \<noteq> []"
    by (simp add: strip_def lstrip_def rstrip_def isspace_def)
  have c6: "(None :: error option) = None
      \<and> drain broken_voice_trailing_env [open_reply] ?init
          = (\<lparr>full_response = ''Hi there'', sentence_buffer = ''Hi there'',
               emitted = [ResponseText ''Hi there'' False]\<rparr>, None)
      \<and> strip (sentence_buffer \<lparr>full_response = ''Hi there'', sentence_buffer = ''Hi there'',
               emitted = [ResponseText ''Hi there'' False]\<rparr>) \<noteq> []
      \<and> snd (piper broken_voice_trailing_env
                (strip (sentence_buffer \<lparr>full_response = ''Hi there'',
                          sentence_buffer = ''Hi there'',
                          emitted = [ResponseText ''Hi there'' False]\<rparr>)))
          = Some (ServiceError ''voice'')"
    using cd cp cs by simp
  note C = failure_after_user_turn [OF c1 buf c3 ne c5 disjI2 [OF disjI2 [OF c6]], of "[]"]
  from A have A': "raised (handle_frame broken_stream_env recording end_audio_frame) \<noteq> None
   \<and> conversation_history (state (handle_frame broken_stream_env recording end_audio_frame))
       = conversation_history recording @ [Turn User ''Hello'']
   \<and> filter is_error (sent (handle_frame broken_stream_env recording end_audio_frame)) = []
   \<and> Done \<notin> set (sent (handle_frame broken_stream_env recording end_audio_frame))
   \<and> websocket_loop broken_stream_env recording [end_audio_frame, clear_history_frame]
       = \<lparr>final = state (handle_frame broken_stream_env recording end_audio_frame),
          trace = Recv end_audio_frame
                    # map Send (sent (handle_frame broken_stream_env recording end_audio_frame)),
          ended = raised (handle_frame broken_stream_env recording end_audio_frame)\<rparr>"
    unfolding ad by simp
  from B have B': "raised (handle_frame broken_voice_env recording end_audio_frame) \<noteq> None
   \<and> conversation_history (state (handle_frame broken_voice_env recording end_audio_frame))
       = conversation_history recording @ [Turn User ''Hello'']
   \<and> filter is_error (sent (handle_frame broken_voice_env recording end_audio_frame)) = []"
    unfolding bd by simp
  from C have C': "raised (handle_frame broken_voice_trailing_env recording end_audio_frame)
       \<noteq> None
   \<and> conversation_history
        (state (handle_frame broken_voice_trailing_env recording end_audio_frame))
       = conversation_history recording @ [Turn User ''Hello'', Turn Assistant ''Hi there'']
   \<and> filter is_error (sent (handle_frame broken_voice_trailing_env recording end_audio_frame))
       = []"
    unfolding cd by simp
  from A' B' C' a1 buf a3 a5 b5 bf bp c5 cd cp show ?thesis by blast
qed

subsection \<open>Two connections\<close>

text \<open>
  Claim C1 on the handler: with two open connections, a \<^verbatim>\<open>clear_history\<close> frame on
  connection 2 empties the history that connection 1 has built, and the second reply
  sent to connection 1 is the one the language model gives to a first exchange. Without
  the frame of connection 2, connection 1 gets the later reply and the history keeps
  its first exchange.
\<close>

theorem shared_history_interference:
  "sent_to 1 (server_run demo_env
       [Connect 1, Connect 2, Frame 1 audio_frame, Frame 1 end_audio_frame,
        Frame 2 clear_history_frame, Frame 1 audio_frame, Frame 1 end_audio_frame])
     = [TranscriptMsg ''Hello'', ResponseText ''Hi there.'' False, AudioMsg ''AAA='' 22050,
        ResponseText [] True, Done,
        TranscriptMsg ''Hello'', ResponseText ''Hi there.'' False, AudioMsg ''AAA='' 22050,
        ResponseText [] True, Done]
   \<and> sent_to 1 (server_run demo_env (without_frames_of 2
       [Connect 1, Connect 2, Frame 1 audio_frame, Frame 1 end_audio_frame,
        Frame 2 clear_history_frame, Frame 1 audio_frame, Frame 1 end_audio_frame]))
     = [TranscriptMsg ''Hello'', ResponseText ''Hi there.'' False, AudioMsg ''AAA='' 22050,
        ResponseText [] True, Done,
        TranscriptMsg ''Hello'', ResponseText ''Hello again.'' False, AudioMsg ''AAA='' 22050,
        ResponseText [] True, Done]
   \<and> shared_history (server_run demo_env
       [Connect 1, Connect 2, Frame 1 audio_frame, Frame 1 end_audio_frame,
        Frame 2 clear_history_frame])
     = [Turn System ''You are a helpful voice assistant.'']
   \<and> shared_history (server_run demo_env (without_frames_of 2
       [Connect 1, Connect 2, Frame 1 audio_frame, Frame 1 end_audio_frame,
        Frame 2 clear_history_frame]))
     = [Turn System ''You are a helpful voice assistant.'', Turn User ''Hello'',
        Turn Assistant ''Hi there.'']"
  by (simp add: server_run_def server_start_def server_step_def sent_to_def
      without_frames_of_def demo_defs handler_defs)


subsection \<open>The shape of the history\<close>


lemma websocket_loop_append:
  "websocket_loop e s (before @ after)
     = (case ended (websocket_loop e s before) of
          Some err \<Rightarrow> websocket_loop e s before
        | None \<Rightarrow>
            (websocket_loop e (final (websocket_loop e s before)) after)
              \<lparr>trace := trace (websocket_loop e s before)
                         @ trace (websocket_loop e (final (websocket_loop e s before)) after)\<rparr>)"
proof (induction before arbitrary: s)
  case Nil
  then show ?case by simp
next
  case (Cons m ms)
  show ?case
  proof (cases "raised (handle_frame e s m)")
    case (Some err)
    then show ?thesis by (simp add: Let_def)
  next
    case None
    then show ?thesis
      using Cons.IH [of "state (handle_frame e s m)"]
      by (cases "ended (websocket_loop e (state (handle_frame e s m)) ms)")
         (simp_all add: Let_def)
  qed
qed

lemma user_assistant_pairs_append:
  "user_assistant_pairs xs \<Longrightarrow> user_assistant_pairs (xs @ [Turn User u, Turn Assistant a])"
  by (induction xs rule: user_assistant_pairs.induct) simp_all

lemma chat_stream_history:
  "chat_stream e history user_message = (history', st, None) \<Longrightarrow>
   history' = history @ [Turn User user_message, Turn Assistant (full_response st)]"
  by (auto simp: chat_stream_def Let_def split: prod.splits option.splits)

lemma end_audio_history:
  assumes "raised (end_audio e s) = None"
  shows "(Done \<notin> set (sent (end_audio e s))
            \<and> conversation_history (state (end_audio e s)) = conversation_history s)
       \<or> (length (filter (\<lambda>m. m = Done) (sent (end_audio e s))) = 1
            \<and> (\<exists>u a. conversation_history (state (end_audio e s))
                       = conversation_history s @ [Turn User u, Turn Assistant a]))"
proof (cases "audio_buffer s = []")
  case True
  then show ?thesis by (simp add: end_audio_def)
next
  case False
  show ?thesis
  proof (cases "transcribe_audio e (audio_buffer s) (sample_rate s)")
    case (Inl err)
    with False assms show ?thesis by (simp add: end_audio_def)
  next
    case (Inr transcript)
    show ?thesis
    proof (cases "transcript = []")
      case True
      with False Inr show ?thesis by (simp add: end_audio_def)
    next
      case ne: False
      obtain history' st failure
        where cs: "chat_stream e (conversation_history s) transcript = (history', st, failure)"
        by (cases "chat_stream e (conversation_history s) transcript")
      obtain audio sf
        where fl: "(if strip (sentence_buffer st) \<noteq> []
                    then speak e (strip (sentence_buffer st)) else ([], None)) = (audio, sf)"
        by (cases "if strip (sentence_buffer st) \<noteq> []
                    then speak e (strip (sentence_buffer st)) else ([], None)")
      have f: "failure = None" and sf: "sf = None"
        using assms False Inr ne cs fl
        by (cases failure; cases sf; simp add: end_audio_def)+
      have hist: "history' = conversation_history s
                    @ [Turn User transcript, Turn Assistant (full_response st)]"
        using cs f chat_stream_history by simp
      have em: "filter (\<lambda>m. \<not> stream_msg m) (emitted st) = []"
      proof -
        obtain lines stream_failure
          where ol: "ollama e (conversation_history s @ [Turn User transcript])
                       = (lines, stream_failure)"
          by (cases "ollama e (conversation_history s @ [Turn User transcript])")
        have "st = fst (drain e lines \<lparr>full_response = [], sentence_buffer = [], emitted = []\<rparr>)"
          using cs ol by (auto simp: chat_stream_def Let_def split: prod.splits option.splits)
        then show ?thesis
          using drain_stream_msgs
                  [of "\<lparr>full_response = [], sentence_buffer = [], emitted = []\<rparr>" e lines]
          by simp
      qed
      have au: "filter (\<lambda>m. \<not> stream_msg m) audio = []"
        using fl speak_stream_msgs [of e "strip (sentence_buffer st)"]
        by (auto split: if_splits)
      have nd: "filter (\<lambda>m. m = Done) ms = []" if "filter (\<lambda>m. \<not> stream_msg m) ms = []" for ms
        using no_stream_msg_error [OF that] by (auto simp: filter_empty_conv)
      have snt: "sent (end_audio e s)
                   = TranscriptMsg transcript # emitted st @ audio @ [ResponseText [] True, Done]"
        and h: "conversation_history (state (end_audio e s)) = history'"
        using False Inr ne cs fl f sf by (simp_all add: end_audio_def)
      have "length (filter (\<lambda>m. m = Done) (sent (end_audio e s))) = 1"
        using nd [OF em] nd [OF au] by (simp add: snt)
      with h hist show ?thesis by blast
    qed
  qed
qed

lemma audio_msg_history:
  "conversation_history (state (audio_msg e s kvs)) = conversation_history s
   \<and> sent (audio_msg e s kvs) = []"
  by (simp add: audio_msg_def split: option.splits json.splits)

lemma handle_frame_history:
  assumes "raised (handle_frame e s m) = None"
    and "frame_type e m \<noteq> Some (JStr ''clear_history'')"
  shows "(Done \<notin> set (sent (handle_frame e s m))
            \<and> conversation_history (state (handle_frame e s m)) = conversation_history s)
       \<or> (length (filter (\<lambda>m. m = Done) (sent (handle_frame e s m))) = 1
            \<and> (\<exists>u a. conversation_history (state (handle_frame e s m))
                       = conversation_history s @ [Turn User u, Turn Assistant a]))"
proof (cases "json_loads e m")
  case None
  with assms show ?thesis by (simp add: handle_frame_def)
next
  case (Some data)
  show ?thesis
  proof (cases data)
    case (JObj kvs)
    consider (audio) "map_of kvs ''type'' = Some (JStr ''audio'')"
      | (end_audio) "map_of kvs ''type'' = Some (JStr ''end_audio'')"
      | (other) "map_of kvs ''type'' \<noteq> Some (JStr ''audio'')"
          "map_of kvs ''type'' \<noteq> Some (JStr ''end_audio'')"
      by blast
    then show ?thesis
    proof cases
      case audio
      then have "handle_frame e s m = audio_msg e s kvs"
        using Some JObj by (simp add: handle_frame_def)
      then show ?thesis using audio_msg_history [of e s kvs] by simp
    next
      case end_audio
      then have "handle_frame e s m = end_audio e s"
        using Some JObj by (simp add: handle_frame_def)
      then show ?thesis using end_audio_history [of e s] assms(1) by simp
    next
      case other
      moreover have "map_of kvs ''type'' \<noteq> Some (JStr ''clear_history'')"
        using assms(2) Some JObj by (simp add: frame_type_def)
      ultimately have "handle_frame e s m = \<lparr>state = s, sent = [], raised = None\<rparr>"
        using Some JObj by (simp add: handle_frame_def)
      then show ?thesis by simp
    qed
  qed (use Some assms in \<open>simp_all add: handle_frame_def\<close>)
qed

lemma successful_turns_step:
  "successful_turns (Recv m # map Send ms @ tr)
     = length (filter (\<lambda>m. m = Done) ms) + successful_turns tr"
proof -
  have "filter (\<lambda>ev. ev = Send Done) (map Send ms) = map Send (filter (\<lambda>m. m = Done) ms)"
    by (induction ms) auto
  then show ?thesis by (simp add: successful_turns_def)
qed

lemma loop_pairs:
  assumes "ended (websocket_loop e s frames) = None"
    and "\<forall>m \<in> set frames. frame_type e m \<noteq> Some (JStr ''clear_history'')"
    and "conversation_history s = t # pairs"
    and "user_assistant_pairs pairs"
  shows "\<exists>pairs'. conversation_history (final (websocket_loop e s frames)) = t # pairs'
           \<and> user_assistant_pairs pairs'
           \<and> length pairs'
               = length pairs + 2 * successful_turns (trace (websocket_loop e s frames))"
  using assms
proof (induction frames arbitrary: s pairs)
  case Nil
  then show ?case by (simp add: successful_turns_def)
next
  case (Cons m ms)
  let ?r = "handle_frame e s m"
  have r: "raised ?r = None"
    using Cons.prems(1) by (cases "raised ?r") (simp_all add: Let_def)
  then have loop: "websocket_loop e s (m # ms)
      = (websocket_loop e (state ?r) ms)
          \<lparr>trace := Recv m # map Send (sent ?r) @ trace (websocket_loop e (state ?r) ms)\<rparr>"
    by (simp add: Let_def)
  have e': "ended (websocket_loop e (state ?r) ms) = None"
    using Cons.prems(1) loop by simp
  have nc: "frame_type e m \<noteq> Some (JStr ''clear_history'')"
    and ncs: "\<forall>m \<in> set ms. frame_type e m \<noteq> Some (JStr ''clear_history'')"
    using Cons.prems(2) by simp_all
  from handle_frame_history [OF r nc]
  obtain pairs1 where p1: "conversation_history (state ?r) = t # pairs1"
      "user_assistant_pairs pairs1"
      "length pairs1 = length pairs + 2 * length (filter (\<lambda>m. m = Done) (sent ?r))"
  proof (elim disjE conjE exE)
    assume "Done \<notin> set (sent ?r)" "conversation_history (state ?r) = conversation_history s"
    moreover from this(1) have "filter (\<lambda>m. m = Done) (sent ?r) = []"
      by (auto simp: filter_empty_conv)
    ultimately show ?thesis
      using that [of pairs] Cons.prems(3,4) by simp
  next
    fix u a
    assume "length (filter (\<lambda>m. m = Done) (sent ?r)) = 1"
      "conversation_history (state ?r) = conversation_history s @ [Turn User u, Turn Assistant a]"
    then show ?thesis
      using that [of "pairs @ [Turn User u, Turn Assistant a]"] Cons.prems(3,4)
      by (simp add: user_assistant_pairs_append)
  qed
  from Cons.IH [OF e' ncs p1(1) p1(2)]
  obtain pairs' where p': "conversation_history (final (websocket_loop e (state ?r) ms)) = t # pairs'"
      "user_assistant_pairs pairs'"
      "length pairs' = length pairs1 + 2 * successful_turns (trace (websocket_loop e (state ?r) ms))"
    by blast
  have "successful_turns (trace (websocket_loop e s (m # ms)))
          = length (filter (\<lambda>m. m = Done) (sent ?r))
            + successful_turns (trace (websocket_loop e (state ?r) ms))"
    unfolding loop by (simp add: successful_turns_step)
  with p' p1(3) have "conversation_history (final (websocket_loop e s (m # ms))) = t # pairs'
      \<and> user_assistant_pairs pairs'
      \<and> length pairs' = length pairs + 2 * successful_turns (trace (websocket_loop e s (m # ms)))"
    unfolding loop by simp
  then show ?case by blast
qed


lemma loop_ends_with_clear_history:
  assumes "ended (websocket_loop e s before) = None"
    and "before \<noteq> []"
    and "frame_type e (last before) = Some (JStr ''clear_history'')"
  shows "conversation_history (final (websocket_loop e s before)) = init_conversation e"
proof -
  have b: "before = butlast before @ [last before]"
    using assms(2) by simp
  let ?r = "websocket_loop e s (butlast before)"
  have split: "websocket_loop e s before
      = (case ended ?r of
           Some err \<Rightarrow> ?r
         | None \<Rightarrow>
             (websocket_loop e (final ?r) [last before])
               \<lparr>trace := trace ?r @ trace (websocket_loop e (final ?r) [last before])\<rparr>)"
    using websocket_loop_append [of e s "butlast before" "[last before]"] b by simp
  have "ended ?r = None"
    using assms(1) split by (cases "ended ?r") simp_all
  then have "final (websocket_loop e s before) = final (websocket_loop e (final ?r) [last before])"
    using split by simp
  then show ?thesis
    using handle_frame_clear_history [OF assms(3), of "final ?r"] by (simp add: Let_def)
qed

text \<open>
  A connection that runs alone, as \<open>websocket_endpoint\<close> has it, and without an
  exception: the history is the system turn followed by user and assistant turns in
  pairs, as many pairs as turns have reached \<^verbatim>\<open>done\<close> since the connection started or
  since the last \<^verbatim>\<open>clear_history\<close> frame. Handling a \<^verbatim>\<open>clear_history\<close> frame leaves
  exactly the system turn.
\<close>

lemma single_connection_invariant:
  assumes "ended (websocket_endpoint e (before @ after)) = None"
    and "before = [] \<or> frame_type e (last before) = Some (JStr ''clear_history'')"
    and "\<forall>m \<in> set after. frame_type e m \<noteq> Some (JStr ''clear_history'')"
  shows "(\<exists>pairs.
            conversation_history (final (websocket_endpoint e (before @ after)))
              = Turn System (system_prompt e) # pairs
          \<and> user_assistant_pairs pairs
          \<and> length pairs
              = 2 * successful_turns
                      (trace (websocket_loop e (final (websocket_endpoint e before)) after)))
       \<and> (frame_type e message = Some (JStr ''clear_history'') \<longrightarrow>
            conversation_history (state (handle_frame e s message))
              = [Turn System (system_prompt e)])
       \<and> (snd (snd (chat_stream e history user_message)) = None \<longrightarrow>
            fst (chat_stream e history user_message)
              = history @ [Turn User user_message,
                           Turn Assistant
                             (full_response (fst (snd (chat_stream e history user_message))))])"
proof -
  let ?rb = "websocket_loop e (accept e) before"
  have split: "websocket_loop e (accept e) (before @ after)
      = (case ended ?rb of
           Some err \<Rightarrow> ?rb
         | None \<Rightarrow>
             (websocket_loop e (final ?rb) after)
               \<lparr>trace := trace ?rb @ trace (websocket_loop e (final ?rb) after)\<rparr>)"
    by (rule websocket_loop_append)
  have eb: "ended ?rb = None"
    using assms(1) split by (cases "ended ?rb") (simp_all add: websocket_endpoint_def)
  then have fin: "final (websocket_loop e (accept e) (before @ after))
                    = final (websocket_loop e (final ?rb) after)"
    and ea: "ended (websocket_loop e (final ?rb) after) = None"
    using split assms(1) by (simp_all add: websocket_endpoint_def)
  have start: "conversation_history (final ?rb) = Turn System (system_prompt e) # []"
  proof (cases "before = []")
    case True
    then show ?thesis by (simp add: accept_def init_conversation_def)
  next
    case False
    with assms(2) have "frame_type e (last before) = Some (JStr ''clear_history'')" by simp
    from loop_ends_with_clear_history [OF eb False this]
    show ?thesis by (simp add: init_conversation_def)
  qed
  from loop_pairs [OF ea assms(3) start]
  have "\<exists>pairs.
          conversation_history (final (websocket_loop e (final ?rb) after))
            = Turn System (system_prompt e) # pairs
        \<and> user_assistant_pairs pairs
        \<and> length pairs = 2 * successful_turns (trace (websocket_loop e (final ?rb) after))"
    by simp
  then have first: "\<exists>pairs.
            conversation_history (final (websocket_endpoint e (before @ after)))
              = Turn System (system_prompt e) # pairs
          \<and> user_assistant_pairs pairs
          \<and> length pairs
              = 2 * successful_turns
                      (trace (websocket_loop e (final (websocket_endpoint e before)) after))"
    using fin by (simp add: websocket_endpoint_def)
  have "conversation_history (state (handle_frame e s message))
          = [Turn System (system_prompt e)]"
    if "frame_type e message = Some (JStr ''clear_history'')"
    using handle_frame_clear_history [OF that, of s] by (simp add: init_conversation_def)
  moreover have "fst (chat_stream e history user_message)
              = history @ [Turn User user_message,
                           Turn Assistant
                             (full_response (fst (snd (chat_stream e history user_message))))]"
    if "snd (snd (chat_stream e history user_message)) = None"
    using that chat_stream_history [of e history user_message
        "fst (chat_stream e history user_message)"
        "fst (snd (chat_stream e history user_message))"]
    by (cases "chat_stream e history user_message") simp
  ultimately show ?thesis using first by blast
qed

lemma chat_stream_request:
  assumes "ollama e (history @ [Turn User user_message]) = (lines, stream_failure)"
    and "drain e lines \<lparr>full_response = [], sentence_buffer = [], emitted = []\<rparr> = (st, df)"
  shows "chat_stream e history user_message
      = (case df of
           Some x \<Rightarrow> (history @ [Turn User user_message], st, Some x)
         | None \<Rightarrow>
             (case stream_failure of
                Some x \<Rightarrow> (history @ [Turn User user_message], st, Some x)
              | None \<Rightarrow>
                  (history @ [Turn User user_message, Turn Assistant (full_response st)],
                   st, None)))"
  using assms by (simp add: chat_stream_def Let_def split: option.splits)

text \<open>
  Claim C9 on the server: the history is the module-level list that every connection
  writes, so the count of 1 + 2N turns does not survive a second connection. In the
  first schedule connection 1 completes one turn (one \<^verbatim>\<open>done\<close> is sent to it) and no
  \<^verbatim>\<open>clear_history\<close> frame is ever sent, yet once connection 2 is accepted the history
  is the system turn alone. In the second schedule both connections are open and each
  completes one turn: one \<^verbatim>\<open>done\<close> was sent to connection 2, and the history has five
  turns.
\<close>

theorem shared_history_breaks_invariant:
  "successful_turns (map Send (sent_to 1 (server_run demo_env
       [Connect 1, Frame 1 audio_frame, Frame 1 end_audio_frame, Connect 2]))) = 1
   \<and> shared_history (server_run demo_env
       [Connect 1, Frame 1 audio_frame, Frame 1 end_audio_frame, Connect 2])
     = [Turn System ''You are a helpful voice assistant.'']
   \<and> successful_turns (map Send (sent_to 2 (server_run demo_env
       [Connect 1, Connect 2, Frame 1 audio_frame, Frame 1 end_audio_frame,
        Frame 2 audio_frame, Frame 2 end_audio_frame]))) = 1
   \<and> shared_history (server_run demo_env
       [Connect 1, Connect 2, Frame 1 audio_frame, Frame 1 end_audio_frame,
        Frame 2 audio_frame, Frame 2 end_audio_frame])
     = [Turn System ''You are a helpful voice assistant.'',
        Turn User ''Hello'', Turn Assistant ''Hi there.'',
        Turn User ''Hello'', Turn Assistant ''Hello again.'']"
  by (simp add: server_run_def server_start_def server_step_def sent_to_def
      successful_turns_def demo_defs handler_defs)

subsection \<open>One frame at a time\<close>

lemma received_sends: "received (map Send ms @ tr) = received tr"
  by (induction ms) simp_all

lemma received_loop:
  "received (trace (websocket_loop e s frames))
     = take (length (received (trace (websocket_loop e s frames)))) frames
   \<and> (ended (websocket_loop e s frames) = None \<longrightarrow>
         received (trace (websocket_loop e s frames)) = frames)"
proof (induction frames arbitrary: s)
  case Nil
  then show ?case by simp
next
  case (Cons m ms)
  show ?case
  proof (cases "raised (handle_frame e s m)")
    case (Some err)
    then show ?thesis
      using received_sends [of "sent (handle_frame e s m)" "[]"] by (simp add: Let_def)
  next
    case None
    then show ?thesis
      using Cons.IH [of "state (handle_frame e s m)"]
      by (simp add: Let_def received_sends)
  qed
qed

lemma end_audio_clears_buffer:
  assumes "raised (end_audio e s) = None"
  shows "audio_buffer (state (end_audio e s)) = []"
proof (cases "audio_buffer s = []")
  case True
  then show ?thesis by (simp add: end_audio_def)
next
  case False
  show ?thesis
  proof (cases "transcribe_audio e (audio_buffer s) (sample_rate s)")
    case (Inl err)
    with False assms show ?thesis by (simp add: end_audio_def)
  next
    case (Inr transcript)
    show ?thesis
    proof (cases "transcript = []")
      case True
      with False Inr show ?thesis by (simp add: end_audio_def)
    next
      case ne: False
      obtain history' st failure
        where cs: "chat_stream e (conversation_history s) transcript = (history', st, failure)"
        by (cases "chat_stream e (conversation_history s) transcript")
      obtain audio sf
        where fl: "(if strip (sentence_buffer st) \<noteq> []
                    then speak e (strip (sentence_buffer st)) else ([], None)) = (audio, sf)"
        by (cases "if strip (sentence_buffer st) \<noteq> []
                    then speak e (strip (sentence_buffer st)) else ([], None)")
      show ?thesis
        using assms False Inr ne cs fl
        by (cases failure; cases sf) (simp_all add: end_audio_def)
    qed
  qed
qed

text \<open>
  Claim C10: the handler reads the next frame only when the handling of the previous
  one has returned. The frames read are, in order, an initial part of the frames that
  arrived, all of them when no exception ended the handler. After an \<^verbatim>\<open>end_audio\<close> frame
  handled without an exception, every message of that turn is sent before the next
  \<^verbatim>\<open>receive_text\<close>, and the remaining frames are handled from the state the finished
  turn left, in which the audio buffer is empty. So a \<^verbatim>\<open>clear_history\<close> frame that
  arrived during the turn is applied after the turn's assistant turn was appended and
  its \<^verbatim>\<open>done\<close> was sent, and leaves only the system turn; an \<^verbatim>\<open>audio\<close> frame that arrived
  during the turn does not reach that turn: its bytes are the whole buffer afterwards.
\<close>

theorem frames_handled_in_order:
  assumes "frame_type e message = Some (JStr ''end_audio'')"
    and "raised (handle_frame e s message) = None"
  shows "websocket_loop e s (message # rest)
           = (websocket_loop e (state (end_audio e s)) rest)
               \<lparr>trace := Recv message # map Send (sent (end_audio e s))
                          @ trace (websocket_loop e (state (end_audio e s)) rest)\<rparr>
       \<and> audio_buffer (state (end_audio e s)) = []
       \<and> received (trace (websocket_loop e s0 frames))
           = take (length (received (trace (websocket_loop e s0 frames)))) frames
       \<and> (ended (websocket_loop e s0 frames) = None \<longrightarrow>
             received (trace (websocket_loop e s0 frames)) = frames)
       \<and> (frame_type e c = Some (JStr ''clear_history'') \<longrightarrow>
             websocket_loop e s [message, c]
               = \<lparr>final = (state (end_audio e s))\<lparr>conversation_history := init_conversation e\<rparr>,
                  trace = Recv message # map Send (sent (end_audio e s))
                            @ [Recv c, Send HistoryCleared],
                  ended = None\<rparr>)
       \<and> (json_loads e a = Some (JObj kvs) \<and> map_of kvs ''type'' = Some (JStr ''audio'')
            \<and> map_of kvs ''data'' = Some (JStr d) \<and> b64decode e d = Some audio_chunk \<longrightarrow>
             audio_buffer (final (websocket_loop e s [message, a])) = audio_chunk
           \<and> conversation_history (final (websocket_loop e s [message, a]))
               = conversation_history (state (end_audio e s))
           \<and> trace (websocket_loop e s [message, a])
               = Recv message # map Send (sent (end_audio e s)) @ [Recv a])"
proof -
  have hf: "handle_frame e s message = end_audio e s"
    using assms(1) by (rule handle_frame_end_audio)
  have r: "raised (end_audio e s) = None"
    using assms(2) hf by simp
  have step: "websocket_loop e s (message # more)
           = (websocket_loop e (state (end_audio e s)) more)
               \<lparr>trace := Recv message # map Send (sent (end_audio e s))
                          @ trace (websocket_loop e (state (end_audio e s)) more)\<rparr>" for more
    using r by (simp add: hf Let_def)
  have buf: "audio_buffer (state (end_audio e s)) = []"
    using r by (rule end_audio_clears_buffer)
  have clear: "websocket_loop e s [message, c]
               = \<lparr>final = (state (end_audio e s))\<lparr>conversation_history := init_conversation e\<rparr>,
                  trace = Recv message # map Send (sent (end_audio e s))
                            @ [Recv c, Send HistoryCleared],
                  ended = None\<rparr>"
    if "frame_type e c = Some (JStr ''clear_history'')"
    unfolding step [of "[c]"]
    using handle_frame_clear_history [OF that, of "state (end_audio e s)"]
    by (simp add: Let_def)
  have audio: "audio_buffer (final (websocket_loop e s [message, a])) = audio_chunk
           \<and> conversation_history (final (websocket_loop e s [message, a]))
               = conversation_history (state (end_audio e s))
           \<and> trace (websocket_loop e s [message, a])
               = Recv message # map Send (sent (end_audio e s)) @ [Recv a]"
    if "json_loads e a = Some (JObj kvs)" "map_of kvs ''type'' = Some (JStr ''audio'')"
       "map_of kvs ''data'' = Some (JStr d)" "b64decode e d = Some audio_chunk"
  proof -
    have "handle_frame e (state (end_audio e s)) a
            = \<lparr>state = (state (end_audio e s))
                  \<lparr>audio_buffer := audio_chunk,
                   sample_rate := (case map_of kvs ''sample_rate'' of
                                     None \<Rightarrow> JNum 16000 | Some v \<Rightarrow> v)\<rparr>,
               sent = [], raised = None\<rparr>"
      using that buf by (simp add: handle_frame_def audio_msg_def)
    then show ?thesis
      unfolding step [of "[a]"] by (simp add: Let_def)
  qed
  from step [of rest] buf received_loop [of e s0 frames] clear audio
  show ?thesis by blast
qed

theorem frames_handled_in_order_witness:
  "frame_type demo_env end_audio_frame = Some (JStr ''end_audio'')
   \<and> raised (handle_frame demo_env recording end_audio_frame) = None
   \<and> audio_buffer (state (end_audio demo_env recording)) = []
   \<and> ended (websocket_loop demo_env (accept demo_env) [audio_frame, end_audio_frame]) = None
   \<and> received (trace (websocket_loop demo_env (accept demo_env) [audio_frame, end_audio_frame]))
       = [audio_frame, end_audio_frame]
   \<and> frame_type demo_env clear_history_frame = Some (JStr ''clear_history'')
   \<and> websocket_loop demo_env recording [end_audio_frame, clear_history_frame]
       = \<lparr>final = (state (end_audio demo_env recording))
                    \<lparr>conversation_history := init_conversation demo_env\<rparr>,
          trace = Recv end_audio_frame # map Send (sent (end_audio demo_env recording))
                    @ [Recv clear_history_frame, Send HistoryCleared],
          ended = None\<rparr>
   \<and> json_loads demo_env audio_frame
       = Some (JObj [(''type'', JStr ''audio''), (''data'', JStr ''AAA='')])
   \<and> b64decode demo_env ''AAA='' = Some [0, 0]
   \<and> audio_buffer (final (websocket_loop demo_env recording [end_audio_frame, audio_frame]))
       = [0, 0]
   \<and> trace (websocket_loop demo_env recording [end_audio_frame, audio_frame])
       = Recv end_audio_frame # map Send (sent (end_audio demo_env recording))
           @ [Recv audio_frame]"
proof -
  have h1: "frame_type demo_env end_audio_frame = Some (JStr ''end_audio'')"
    by (simp add: frame_type_def demo_defs)
  have h2: "raised (handle_frame demo_env recording end_audio_frame) = None"
    by (simp add: demo_defs handler_defs)
  have h3: "ended (websocket_loop demo_env (accept demo_env) [audio_frame, end_audio_frame])
              = None"
    by (simp add: demo_defs handler_defs)
  have h4: "frame_type demo_env clear_history_frame = Some (JStr ''clear_history'')"
    by (simp add: frame_type_def demo_defs)
  have h5: "json_loads demo_env audio_frame
              = Some (JObj [(''type'', JStr ''audio''), (''data'', JStr ''AAA='')])"
    by (simp add: demo_defs)
  have h6: "b64decode demo_env ''AAA='' = Some [0, 0]"
    by (simp add: demo_defs)
  from frames_handled_in_order [OF h1 h2, of "[]" "accept demo_env"
         "[audio_frame, end_audio_frame]" clear_history_frame audio_frame
         "[(''type'', JStr ''audio''), (''data'', JStr ''AAA='')]" "''AAA=''" "[0, 0]"]
       h1 h2 h3 h4 h5 h6
  show ?thesis by simp
qed


end
